theory Spec2Isabelle
  imports Main "HOL-Library.Word" "HOL-Library.AList"
begin

unbundle bit_operations_syntax

section \<open>Data model of the PLC service\<close>

text \<open>
  The embedding follows \<open>plc.service.ts\<close> (class \<open>PlcService\<close>), the controller in
  \<open>plc.controller.ts\<close> and the tag renderer of \<open>DataSetCachePage.tsx\<close>.
  Exceptions are values: an operation returns \<open>Inl e\<close> where the source throws \<open>e\<close>,
  together with the state as the throw leaves it.
\<close>

datatype exn = BadRequestException string | Error string

fun message :: "exn \<Rightarrow> string" where
  "message (BadRequestException m) = m"
| "message (Error m) = m"

type_synonym 'a result = "exn + 'a"

text \<open>\<open>PlcValue = number[] | string | boolean\<close> (plc.types).\<close>

datatype PlcValue = VNumbers "int list" | VString string | VBool bool

text \<open>
  The \<open>type\<close> column of a data point: \<open>"number" | "string" | "bool"\<close>; any other stored
  text reaches the \<open>default\<close> branches of the source and is kept as \<open>TUnknown\<close>.
\<close>

datatype dp_type = TNumber | TString | TBool | TUnknown string

record DataPoint =
  key :: string
  description :: string
  addressType :: string
  address :: int
  length_dp :: int
  bit_dp :: "int option"
  type_dp :: dp_type
  pollingInterval :: int

text \<open>
  Modelled from the spec: the request class \<open>RegisterDataPointDto\<close> of \<open>dto/plc-data.dto\<close>,
  which is not among the sources. It has the fields that \<open>registerDataPoint\<close> reads, the
  interval optional, as the default \<open>?? 1000\<close> tells. As the service receives it the class
  puts no bound on the interval: the service method is typed by the class alone, and a
  check in front of the controller is not part of it.
\<close>

record RegisterDataPointDto =
  dto_key :: string
  dto_description :: string
  dto_addressType :: string
  dto_address :: int
  dto_length :: int
  dto_bit :: "int option"
  dto_type :: dp_type
  dto_pollingInterval :: "int option"

record PlcCache =
  c_key :: string
  c_value :: PlcValue
  c_timestamp :: int
  c_error :: "string option"

text \<open>
  Modelled from the spec: the enum \<open>DeviceCode\<close> of \<open>plc-communication.service\<close>, which is
  not among the sources. Its members are the five regions the spec names, each taken to be
  a truthy value, so that the test \<open>!code\<close> of \<open>getDeviceCode\<close> fails exactly for a missing
  table entry.
\<close>

datatype DeviceCode = Dev_D | Dev_R | Dev_M | Dev_X | Dev_Y

section \<open>Region-code resolution\<close>

text \<open>
  \<open>String.prototype.toUpperCase\<close> on the ASCII letters. A character outside ASCII is left
  as it is: no such character upper-cases to one of the letters of the device table.
\<close>

definition upper_char :: "char \<Rightarrow> char" where
  "upper_char c =
     (let n = (of_char c :: nat) in if 97 \<le> n \<and> n \<le> 122 then char_of (n - 32) else c)"

definition toUpperCase :: "string \<Rightarrow> string" where
  "toUpperCase s = map upper_char s"

text \<open>
  The object literal \<open>map\<close> of \<open>getDeviceCode\<close>. A lookup sees its five own keys only: the
  names it inherits from \<open>Object.prototype\<close> all hold a lower-case letter, which no
  upper-cased text does.
\<close>

definition device_map :: "(string \<times> DeviceCode) list" where
  "device_map =
     [(''D'', Dev_D), (''R'', Dev_R), (''M'', Dev_M), (''X'', Dev_X), (''Y'', Dev_Y)]"

definition getDeviceCode :: "string \<Rightarrow> DeviceCode result" where
  "getDeviceCode addrType =
     (case map_of device_map (toUpperCase addrType) of
        None \<Rightarrow> Inl (BadRequestException (''Invalid address type: '' @ addrType))
      | Some code \<Rightarrow> Inr code)"

section \<open>The service state and its collaborators\<close>

text \<open>
  Modelled from the spec: the Transport Gate (\<open>PlcCommunicationService\<close>, not among the
  sources). Every primitive is an atomic call that may fail; its outcome is an input of the
  model. \<open>now\<close> is the clock read by \<open>new Date()\<close> and \<open>Date.now()\<close>, in milliseconds.
  \<open>connect\<close> and the write primitives give \<open>Some e\<close> when they throw \<open>e\<close>.
\<close>

record plc_env =
  now :: int
  isConnectionActive :: bool
  connect :: "exn option"
  readNumbers :: "DeviceCode \<Rightarrow> int \<Rightarrow> int \<Rightarrow> int list result"
  readString :: "DeviceCode \<Rightarrow> int \<Rightarrow> int \<Rightarrow> string result"
  readBit :: "DeviceCode \<Rightarrow> int \<Rightarrow> int \<Rightarrow> bool result"
  writeNumbers :: "DeviceCode \<Rightarrow> int \<Rightarrow> int list \<Rightarrow> exn option"
  writeString :: "DeviceCode \<Rightarrow> int \<Rightarrow> string \<Rightarrow> exn option"
  writeBit :: "DeviceCode \<Rightarrow> int \<Rightarrow> int \<Rightarrow> bool \<Rightarrow> exn option"

text \<open>
  The fields of \<open>PlcService\<close>, the interval timers of the runtime and the two stores.
  \<open>pollingTimers\<close> is the \<open>Map\<close> from key to timer handle, in insertion order
  (\<open>Map.set\<close> is \<open>AList.update\<close>, \<open>Map.delete\<close> is \<open>AList.delete\<close>).
  \<open>intervals\<close> is the runtime's table of live interval timers: \<open>setInterval\<close> adds a
  handle with the data point its callback captured (the period is that data point's
  \<open>pollingInterval\<close>), \<open>clearInterval\<close> removes it. \<open>dataPoints\<close> and \<open>plcCache\<close> are
  the rows behind \<open>PlcDbService\<close>. \<open>pending\<close> holds the polls in flight: the data point
  of every call of \<open>pollDataPoint\<close> that was started and is not yet answered.
\<close>

record service =
  pollingTimers :: "(string \<times> nat) list"
  isPollingActive :: bool
  readCount :: nat
  pollingStartTime :: "int option"
  intervals :: "(nat \<times> DataPoint) list"
  nextTimer :: nat
  dataPoints :: "DataPoint list"
  plcCache :: "string \<rightharpoonup> PlcCache"
  pending :: "DataPoint list"

definition initial_service :: service where
  "initial_service =
     \<lparr>pollingTimers = [], isPollingActive = False, readCount = 0, pollingStartTime = None,
      intervals = [], nextTimer = 0, dataPoints = [], plcCache = Map.empty, pending = []\<rparr>"

subsection \<open>The stores\<close>

text \<open>
  \<open>PlcDbService\<close> is not among the sources. Its methods are modelled from what the
  specification says of the registry store and of the cache store; none of them fails
  except \<open>createDataPoint\<close> on a key that is taken.
\<close>

text \<open>Modelled from the spec: \<open>findDataPoint\<close>, the registry's \<open>findOne(key)\<close>.\<close>

definition findDataPoint :: "string \<Rightarrow> service \<Rightarrow> DataPoint option" where
  "findDataPoint k s = find (\<lambda>d. key d = k) (dataPoints s)"

text \<open>Modelled from the spec: \<open>findAllDataPoints\<close>, the registry's \<open>findAll()\<close>.\<close>

definition findAllDataPoints :: "service \<Rightarrow> DataPoint list" where
  "findAllDataPoints s = dataPoints s"

text \<open>
  Modelled from the spec: \<open>createDataPoint\<close>, the registry's \<open>create(definition)\<close>, which
  must reject a definition with a duplicate key and otherwise stores and returns it.
\<close>

definition createDataPoint :: "DataPoint \<Rightarrow> service \<Rightarrow> DataPoint result \<times> service" where
  "createDataPoint dp s =
     (if list_ex (\<lambda>d. key d = key dp) (dataPoints s)
      then (Inl (Error (''Duplicate key: '' @ key dp)), s)
      else (Inr dp, s\<lparr>dataPoints := dataPoints s @ [dp]\<rparr>))"

text \<open>Modelled from the spec: \<open>deleteDataPoint\<close>, the registry's \<open>delete(key)\<close>.\<close>

definition deleteDataPoint :: "string \<Rightarrow> service \<Rightarrow> unit result \<times> service" where
  "deleteDataPoint k s = (Inr (), s\<lparr>dataPoints := filter (\<lambda>d. key d \<noteq> k) (dataPoints s)\<rparr>)"

text \<open>
  Modelled from the spec: \<open>saveCache\<close>, the cache store's \<open>upsert(entry)\<close>: one row for a
  key, the latest write winning.
\<close>

definition saveCache :: "PlcCache \<Rightarrow> service \<Rightarrow> unit result \<times> service" where
  "saveCache entry s = (Inr (), s\<lparr>plcCache := (plcCache s)(c_key entry \<mapsto> entry)\<rparr>)"

text \<open>Modelled from the spec: \<open>findCache\<close>, the cache store's \<open>findOne(key)\<close>.\<close>

definition findCache :: "string \<Rightarrow> service \<Rightarrow> PlcCache option" where
  "findCache k s = plcCache s k"

subsection \<open>Interval timers of the runtime\<close>

text \<open>
  A handle is the \<open>Timeout\<close> object that \<open>setInterval\<close> returns; the number only names it.
  Every handle is a truthy value, so the test \<open>if (timer)\<close> of \<open>stopPollingForDataPoint\<close>
  asks whether the \<open>Map\<close> has the key.
\<close>

definition setInterval :: "DataPoint \<Rightarrow> service \<Rightarrow> nat \<times> service" where
  "setInterval dp s =
     (nextTimer s,
      s\<lparr>intervals := intervals s @ [(nextTimer s, dp)], nextTimer := Suc (nextTimer s)\<rparr>)"

definition clearInterval :: "nat \<Rightarrow> (nat \<times> DataPoint) list \<Rightarrow> (nat \<times> DataPoint) list" where
  "clearInterval timer tbl = filter (\<lambda>(h, d). h \<noteq> timer) tbl"

section \<open>The poll executor\<close>

definition getEmptyValueForType :: "dp_type \<Rightarrow> PlcValue" where
  "getEmptyValueForType t =
     (case t of TNumber \<Rightarrow> VNumbers [] | TBool \<Rightarrow> VBool False | _ \<Rightarrow> VString [])"

text \<open>
  The head of the \<open>try\<close> block of \<open>pollDataPoint\<close>: region resolution and the \<open>switch\<close> on
  the type, up to the value read.
\<close>

definition pollRead :: "plc_env \<Rightarrow> DataPoint \<Rightarrow> PlcValue result" where
  "pollRead env dp =
     (case getDeviceCode (addressType dp) of
        Inl e \<Rightarrow> Inl e
      | Inr deviceCode \<Rightarrow>
          (case type_dp dp of
             TNumber \<Rightarrow> map_sum id VNumbers (readNumbers env deviceCode (address dp) (length_dp dp))
           | TString \<Rightarrow> map_sum id VString (readString env deviceCode (address dp) (length_dp dp))
           | TBool \<Rightarrow>
               (case bit_dp dp of
                  None \<Rightarrow> Inl (BadRequestException (''Bit position required for '' @ key dp))
                | Some b \<Rightarrow> map_sum id VBool (readBit env deviceCode (address dp) b))
           | TUnknown t \<Rightarrow> Inl (BadRequestException (''Unknown type: '' @ t))))"

text \<open>The whole \<open>try\<close> block: the read, the counter, the cache row of a success.\<close>

definition pollTry :: "plc_env \<Rightarrow> DataPoint \<Rightarrow> service \<Rightarrow> unit result \<times> service" where
  "pollTry env dp s =
     (case pollRead env dp of
        Inl e \<Rightarrow> (Inl e, s)
      | Inr v \<Rightarrow>
          saveCache \<lparr>c_key = key dp, c_value = v, c_timestamp = now env, c_error = None\<rparr>
            (s\<lparr>readCount := readCount s + 1\<rparr>))"

text \<open>\<open>pollDataPoint\<close>: the \<open>try\<close> block, and the \<open>catch\<close> block on what it throws.\<close>

definition pollDataPoint :: "plc_env \<Rightarrow> DataPoint \<Rightarrow> service \<Rightarrow> unit result \<times> service" where
  "pollDataPoint env dp s =
     (case pollTry env dp s of
        (Inr u, s1) \<Rightarrow> (Inr u, s1)
      | (Inl err, s1) \<Rightarrow>
          saveCache \<lparr>c_key = key dp, c_value = getEmptyValueForType (type_dp dp),
                     c_timestamp = now env, c_error = Some (message err)\<rparr> s1)"

section \<open>The polling scheduler\<close>

definition stopPollingForDataPoint :: "string \<Rightarrow> service \<Rightarrow> service" where
  "stopPollingForDataPoint k s =
     (case map_of (pollingTimers s) k of
        None \<Rightarrow> s
      | Some timer \<Rightarrow>
          s\<lparr>intervals := clearInterval timer (intervals s),
            pollingTimers := AList.delete k (pollingTimers s)\<rparr>)"

text \<open>
  \<open>startPollingForDataPoint\<close>: retire the key's timer, install a new one, record it in the
  map, then poll once at once. The first three steps are synchronous. Here, and in
  \<open>timerTick\<close>, the poll that is fired is answered before anything else happens; what it
  throws is logged by the \<open>.catch\<close> handler and dropped. The section on runs has the same
  two functions with the poll left in flight.
\<close>

definition startPollingForDataPoint :: "plc_env \<Rightarrow> DataPoint \<Rightarrow> service \<Rightarrow> service" where
  "startPollingForDataPoint env dp s =
     (let s1 = stopPollingForDataPoint (key dp) s;
          (timer, s2) = setInterval dp s1;
          s3 = s2\<lparr>pollingTimers := AList.update (key dp) timer (pollingTimers s2)\<rparr>
      in snd (pollDataPoint env dp s3))"

text \<open>One firing of the interval timer with handle \<open>h\<close>; a cleared timer does not fire.\<close>

definition timerTick :: "plc_env \<Rightarrow> nat \<Rightarrow> service \<Rightarrow> service" where
  "timerTick env h s =
     (case map_of (intervals s) h of
        None \<Rightarrow> s
      | Some dp \<Rightarrow> snd (pollDataPoint env dp s))"

definition registerDataPoint ::
  "plc_env \<Rightarrow> RegisterDataPointDto \<Rightarrow> service \<Rightarrow> DataPoint result \<times> service" where
  "registerDataPoint env dto s =
     (let dataPoint =
            \<lparr>key = dto_key dto, description = dto_description dto,
             addressType = dto_addressType dto, address = dto_address dto,
             length_dp = dto_length dto, bit_dp = dto_bit dto, type_dp = dto_type dto,
             pollingInterval = (case dto_pollingInterval dto of None \<Rightarrow> 1000 | Some p \<Rightarrow> p)\<rparr>
      in case createDataPoint dataPoint s of
           (Inl e, s1) \<Rightarrow> (Inl e, s1)
         | (Inr saved, s1) \<Rightarrow>
             (Inr saved,
              if isPollingActive s1 then startPollingForDataPoint env saved s1 else s1))"

definition unregisterDataPoint :: "string \<Rightarrow> service \<Rightarrow> unit result \<times> service" where
  "unregisterDataPoint k s = deleteDataPoint k (stopPollingForDataPoint k s)"

definition startPolling :: "plc_env \<Rightarrow> service \<Rightarrow> unit result \<times> service" where
  "startPolling env s =
     (if isPollingActive s then (Inr (), s)
      else case (if \<not> isConnectionActive env then connect env else None) of
             Some e \<Rightarrow> (Inl e, s)
           | None \<Rightarrow>
               (let s1 = s\<lparr>isPollingActive := True, readCount := 0,
                            pollingStartTime := Some (now env)\<rparr>
                in (Inr (), fold (startPollingForDataPoint env) (findAllDataPoints s1) s1)))"

definition stopPolling :: "service \<Rightarrow> service" where
  "stopPolling s =
     (if \<not> isPollingActive s then s
      else (let s1 = s\<lparr>isPollingActive := False, readCount := 0, pollingStartTime := None\<rparr>
            in s1\<lparr>intervals := fold (\<lambda>(k, timer). clearInterval timer) (pollingTimers s1)
                                   (intervals s1),
                   pollingTimers := []\<rparr>))"

definition isPolling :: "service \<Rightarrow> bool" where
  "isPolling s = isPollingActive s"



section \<open>Writing a value\<close>

text \<open>Step 2 of \<open>writeData\<close>: the \<open>switch\<close> that checks the value and writes to the device.\<close>

definition writeDevice ::
  "plc_env \<Rightarrow> string \<Rightarrow> DataPoint \<Rightarrow> DeviceCode \<Rightarrow> PlcValue \<Rightarrow> exn option" where
  "writeDevice env k dp deviceCode v =
     (case type_dp dp of
        TNumber \<Rightarrow>
          (case v of
             VNumbers ws \<Rightarrow> writeNumbers env deviceCode (address dp) ws
           | _ \<Rightarrow> Some (BadRequestException (''Value must be number array for '' @ k)))
      | TString \<Rightarrow>
          (case v of
             VString str \<Rightarrow> writeString env deviceCode (address dp) str
           | _ \<Rightarrow> Some (BadRequestException (''Value must be string for '' @ k)))
      | TBool \<Rightarrow>
          (case v of
             VBool b \<Rightarrow>
               (case bit_dp dp of
                  None \<Rightarrow> Some (BadRequestException (''Bit position required for '' @ k))
                | Some pos \<Rightarrow> writeBit env deviceCode (address dp) pos b)
           | _ \<Rightarrow> Some (BadRequestException (''Value must be boolean for '' @ k)))
      | TUnknown t \<Rightarrow> Some (BadRequestException (''Unknown data point type: '' @ t)))"

definition writeData :: "plc_env \<Rightarrow> string \<Rightarrow> PlcValue \<Rightarrow> service \<Rightarrow> unit result \<times> service" where
  "writeData env k v s =
     (case findDataPoint k s of
        None \<Rightarrow> (Inl (BadRequestException (''Data point not found: '' @ k)), s)
      | Some dp \<Rightarrow>
          (case getDeviceCode (addressType dp) of
             Inl e \<Rightarrow> (Inl e, s)
           | Inr deviceCode \<Rightarrow>
               (case writeDevice env k dp deviceCode v of
                  Some e \<Rightarrow> (Inl e, s)
                | None \<Rightarrow>
                    saveCache \<lparr>c_key = k, c_value = v, c_timestamp = now env, c_error = None\<rparr> s)))"

section \<open>Runs of the service\<close>

text \<open>
  The methods of the service are asynchronous, and a poll is started without being
  awaited. What is still to happen of a poll is kept in \<open>pending\<close>: \<open>launchPoll\<close> is the call
  \<open>this.pollDataPoint(dataPoint).catch(...)\<close> that leaves the poll in flight, \<open>completePoll\<close> is
  the moment the device answers it, when the counter and the cache row are written. The
  device and the clock are those of that moment.
\<close>

definition launchPoll :: "DataPoint \<Rightarrow> service \<Rightarrow> service" where
  "launchPoll dp s = s\<lparr>pending := pending s @ [dp]\<rparr>"

definition completePoll :: "plc_env \<Rightarrow> nat \<Rightarrow> service \<Rightarrow> service" where
  "completePoll env i s =
     (if i < length (pending s)
      then snd (pollDataPoint env (pending s ! i)
                  (s\<lparr>pending := take i (pending s) @ drop (Suc i) (pending s)\<rparr>))
      else s)"

text \<open>The callback of the interval timer with handle \<open>h\<close>: it launches a poll.\<close>

definition timerFires :: "nat \<Rightarrow> service \<Rightarrow> service" where
  "timerFires h s =
     (case map_of (intervals s) h of
        None \<Rightarrow> s
      | Some dp \<Rightarrow> launchPoll dp s)"

text \<open>
  \<open>startPollingForDataPoint\<close> as the source runs it, the poll it fires left in flight. The
  function above is this one with the poll answered at once.
\<close>

definition launchPollingForDataPoint :: "DataPoint \<Rightarrow> service \<Rightarrow> service" where
  "launchPollingForDataPoint dp s =
     (let s1 = stopPollingForDataPoint (key dp) s;
          (timer, s2) = setInterval dp s1;
          s3 = s2\<lparr>pollingTimers := AList.update (key dp) timer (pollingTimers s2)\<rparr>
      in launchPoll dp s3)"

text \<open>
  \<open>startPolling\<close> in its two halves: up to the \<open>await\<close> of \<open>findAllDataPoints\<close>, and from the
  list \<open>dps\<close> that the registry answered, read at some moment in between.
\<close>

definition startPolling_begin :: "plc_env \<Rightarrow> service \<Rightarrow> unit result \<times> service" where
  "startPolling_begin env s =
     (if isPollingActive s then (Inr (), s)
      else case (if \<not> isConnectionActive env then connect env else None) of
             Some e \<Rightarrow> (Inl e, s)
           | None \<Rightarrow>
               (Inr (), s\<lparr>isPollingActive := True, readCount := 0,
                          pollingStartTime := Some (now env)\<rparr>))"

definition startPolling_resume :: "DataPoint list \<Rightarrow> service \<Rightarrow> service" where
  "startPolling_resume dps s = fold launchPollingForDataPoint dps s"

text \<open>
  \<open>registerDataPoint\<close> in its two halves: up to the \<open>await\<close> of \<open>createDataPoint\<close>, and from
  the definition \<open>saved\<close> that the registry answered.
\<close>

definition registerDataPoint_begin ::
  "RegisterDataPointDto \<Rightarrow> service \<Rightarrow> DataPoint result \<times> service" where
  "registerDataPoint_begin dto s =
     createDataPoint
       \<lparr>key = dto_key dto, description = dto_description dto,
        addressType = dto_addressType dto, address = dto_address dto,
        length_dp = dto_length dto, bit_dp = dto_bit dto, type_dp = dto_type dto,
        pollingInterval = (case dto_pollingInterval dto of None \<Rightarrow> 1000 | Some p \<Rightarrow> p)\<rparr> s"

definition registerDataPoint_resume :: "DataPoint \<Rightarrow> service \<Rightarrow> service" where
  "registerDataPoint_resume saved s =
     (if isPollingActive s then launchPollingForDataPoint saved s else s)"

text \<open>
  A run is a list of operations. \<open>Register\<close>, \<open>Unregister\<close>, \<open>Start\<close> and \<open>Write\<close> are a
  call of the method that nothing interleaves, the polls it fires answered at once; \<open>Stop\<close>
  is \<open>stopPolling\<close>, which is synchronous; \<open>Tick\<close> is a timer that fires with its poll
  answered at once. The other operations are the finer steps of the same code: \<open>Fire\<close>
  is a timer that fires and leaves its poll in flight, \<open>Complete\<close> is the answer to the
  \<open>i\<close>-th poll in flight, \<open>StartBegin\<close> and \<open>StartResume\<close> are the two halves of
  \<open>startPolling\<close>, \<open>RegisterBegin\<close> and \<open>RegisterResume\<close> those of \<open>registerDataPoint\<close>. A
  second half may follow its first half after any other operations, and is given what the
  registry answered. \<open>unregisterDataPoint\<close> and \<open>writeData\<close> stay one step each.
\<close>

datatype operation =
    Register plc_env RegisterDataPointDto
  | Unregister string
  | Start plc_env
  | Stop
  | Tick plc_env nat
  | Write plc_env string PlcValue
  | Fire nat
  | Complete plc_env nat
  | StartBegin plc_env
  | StartResume "DataPoint list"
  | RegisterBegin RegisterDataPointDto
  | RegisterResume DataPoint

fun step :: "operation \<Rightarrow> service \<Rightarrow> service" where
  "step (Register env dto) s = snd (registerDataPoint env dto s)"
| "step (Unregister k) s = snd (unregisterDataPoint k s)"
| "step (Start env) s = snd (startPolling env s)"
| "step Stop s = stopPolling s"
| "step (Tick env h) s = timerTick env h s"
| "step (Write env k v) s = snd (writeData env k v s)"
| "step (Fire h) s = timerFires h s"
| "step (Complete env i) s = completePoll env i s"
| "step (StartBegin env) s = snd (startPolling_begin env s)"
| "step (StartResume dps) s = startPolling_resume dps s"
| "step (RegisterBegin dto) s = snd (registerDataPoint_begin dto s)"
| "step (RegisterResume saved) s = registerDataPoint_resume saved s"

definition run :: "operation list \<Rightarrow> service \<Rightarrow> service" where
  "run ops s = fold step ops s"

section \<open>The int32 tag codec\<close>

text \<open>
  The bitwise operators of the tag renderer work on 32-bit signed integers: each operand
  is wrapped to 32 bits, the result is read in two's complement.
\<close>

definition js_shl :: "int \<Rightarrow> nat \<Rightarrow> int" where
  "js_shl a n = sint (push_bit (n mod 32) (word_of_int a :: 32 word))"

definition js_or :: "int \<Rightarrow> int \<Rightarrow> int" where
  "js_or a b = sint ((word_of_int a :: 32 word) OR word_of_int b)"

text \<open>What \<open>renderTagValue\<close> returns: a number, or one of its marker texts.\<close>

datatype rendered = RNumber int | RText string

text \<open>The helper \<open>safe\<close> of \<open>renderTagValue\<close>: \<open>None\<close> is \<open>undefined\<close>.\<close>

definition safe :: "int list \<Rightarrow> int \<Rightarrow> int option" where
  "safe dsValues idx =
     (if idx \<ge> 0 \<and> idx < int (length dsValues) then Some (dsValues ! nat idx) else None)"

text \<open>
  \<open>renderTagValue\<close> of \<open>DataSetCachePage.tsx\<close> for a tag of data type \<open>int32\<close> at word
  \<open>offset\<close>; \<open>dsValues\<close> is \<open>None\<close> when the caller has no values for the data set.
\<close>

definition renderTagValue_int32 :: "int \<Rightarrow> int list option \<Rightarrow> rendered" where
  "renderTagValue_int32 offset dsValues =
     (case dsValues of
        None \<Rightarrow> RText ''-''
      | Some vs \<Rightarrow>
          if length vs = 0 then RText ''-''
          else (case (safe vs offset, safe vs (offset + 1)) of
                  (Some lo, Some hi) \<Rightarrow>
                    (let val = js_or (js_shl hi 16) lo
                     in RNumber (if val > 2147483647 then val - 4294967296 else val))
                | _ \<Rightarrow> RText ''N/A''))"

text \<open>
  Modelled from the spec: the int32 encoder, which is not among the sources. It is the
  inverse of the decoding rule: a negative value stands for itself plus \<open>4294967296\<close>, the
  low word comes first.
\<close>

definition encode_int32 :: "int \<Rightarrow> int list" where
  "encode_int32 v =
     (let raw = (if v < 0 then v + 4294967296 else v)
      in [raw mod 65536, raw div 65536])"

section \<open>Predicates of the properties\<close>

text \<open>The value \<open>v\<close> has the shape that a data point of type \<open>t\<close> takes.\<close>

definition hasType :: "dp_type \<Rightarrow> PlcValue \<Rightarrow> bool" where
  "hasType t v =
     (case (t, v) of
        (TNumber, VNumbers ws) \<Rightarrow> True
      | (TString, VString str) \<Rightarrow> True
      | (TBool, VBool b) \<Rightarrow> True
      | _ \<Rightarrow> False)"

text \<open>
  The \<open>Map\<close> holds each key once and each handle once, every handle in it was issued, no
  handle is live twice, and every live timer is the one the \<open>Map\<close> records for the key of
  its data point.
\<close>

definition timers_inv :: "service \<Rightarrow> bool" where
  "timers_inv s \<longleftrightarrow>
     distinct (map fst (pollingTimers s)) \<and>
     distinct (map snd (pollingTimers s)) \<and>
     distinct (map fst (intervals s)) \<and>
     (\<forall>(k, h) \<in> set (pollingTimers s). h < nextTimer s) \<and>
     (\<forall>(h, dp) \<in> set (intervals s). (key dp, h) \<in> set (pollingTimers s))"

text \<open>
  An operation that registers the key \<open>k\<close> or activates polling for it: a registration of
  \<open>k\<close>, whole or in halves, and the second half of \<open>startPolling\<close> on a list that holds \<open>k\<close>.
\<close>

fun activates :: "string \<Rightarrow> operation \<Rightarrow> bool" where
  "activates k (Register env dto) = (dto_key dto = k)"
| "activates k (RegisterBegin dto) = (dto_key dto = k)"
| "activates k (RegisterResume saved) = (key saved = k)"
| "activates k (StartResume dps) = list_ex (\<lambda>d. key d = k) dps"
| "activates k _ = False"

text \<open>A caller's write to the key \<open>k\<close>.\<close>

fun writes_to :: "string \<Rightarrow> operation \<Rightarrow> bool" where
  "writes_to k (Write env k' v) = (k' = k)"
| "writes_to k _ = False"

text \<open>The key \<open>k\<close> has no live timer and no definition in the registry.\<close>

definition key_retired :: "string \<Rightarrow> service \<Rightarrow> bool" where
  "key_retired k s \<longleftrightarrow>
     (\<forall>(h, d) \<in> set (intervals s). key d \<noteq> k) \<and> (\<forall>d \<in> set (dataPoints s). key d \<noteq> k)"

text \<open>A poll of the key \<open>k\<close> is in flight.\<close>

definition in_flight :: "string \<Rightarrow> service \<Rightarrow> bool" where
  "in_flight k s = list_ex (\<lambda>d. key d = k) (pending s)"

section \<open>Concrete inputs\<close>

text \<open>
  A link that answers every call, a link on which every call times out, and the data point
  \<open>temp\<close> of the specification: region \<open>D\<close>, address 100, two words, polled every 500 ms.
\<close>

definition link_up :: plc_env where
  "link_up =
     \<lparr>now = 5000, isConnectionActive = True, connect = None,
      readNumbers = (\<lambda>c a n. Inr (replicate (nat n) 7)),
      readString = (\<lambda>c a n. Inr ''OK''),
      readBit = (\<lambda>c a b. Inr True),
      writeNumbers = (\<lambda>c a ws. None),
      writeString = (\<lambda>c a str. None),
      writeBit = (\<lambda>c a p b. None)\<rparr>"

definition link_down :: plc_env where
  "link_down =
     \<lparr>now = 6000, isConnectionActive = True, connect = None,
      readNumbers = (\<lambda>c a n. Inl (Error ''timeout'')),
      readString = (\<lambda>c a n. Inl (Error ''timeout'')),
      readBit = (\<lambda>c a b. Inl (Error ''timeout'')),
      writeNumbers = (\<lambda>c a ws. Some (Error ''timeout'')),
      writeString = (\<lambda>c a str. Some (Error ''timeout'')),
      writeBit = (\<lambda>c a p b. Some (Error ''timeout''))\<rparr>"

definition temp_dto :: RegisterDataPointDto where
  "temp_dto =
     \<lparr>dto_key = ''temp'', dto_description = ''t'', dto_addressType = ''D'',
      dto_address = 100, dto_length = 2, dto_bit = None, dto_type = TNumber,
      dto_pollingInterval = Some 500\<rparr>"

definition temp_point :: DataPoint where
  "temp_point =
     \<lparr>key = ''temp'', description = ''t'', addressType = ''D'', address = 100,
      length_dp = 2, bit_dp = None, type_dp = TNumber, pollingInterval = 500\<rparr>"

definition running_service :: service where
  "running_service = run [Register link_up temp_dto, Start link_up] initial_service"

definition zone_dto :: RegisterDataPointDto where
  "zone_dto =
     \<lparr>dto_key = ''zone'', dto_description = ''z'', dto_addressType = ''z'',
      dto_address = 0, dto_length = 1, dto_bit = None, dto_type = TNumber,
      dto_pollingInterval = None\<rparr>"

definition zone_point :: DataPoint where
  "zone_point =
     \<lparr>key = ''zone'', description = ''z'', addressType = ''z'', address = 0,
      length_dp = 1, bit_dp = None, type_dp = TNumber, pollingInterval = 1000\<rparr>"

definition fast_dto :: RegisterDataPointDto where
  "fast_dto =
     \<lparr>dto_key = ''fast'', dto_description = ''f'', dto_addressType = ''D'',
      dto_address = 10, dto_length = 1, dto_bit = None, dto_type = TNumber,
      dto_pollingInterval = Some 50\<rparr>"

definition fast_point :: DataPoint where
  "fast_point =
     \<lparr>key = ''fast'', description = ''f'', addressType = ''D'', address = 10,
      length_dp = 1, bit_dp = None, type_dp = TNumber, pollingInterval = 50\<rparr>"

text \<open>
  The scheduler running with the poll of a tick of \<open>temp\<close> in flight, and the scheduler
  stopped between the two halves of a \<open>startPolling\<close>, which leaves it stopped with the
  timer of \<open>temp\<close> live.
\<close>

definition polling_service :: service where
  "polling_service = run [Fire 0] running_service"

definition stale_service :: service where
  "stale_service =
     run [Register link_up temp_dto, StartBegin link_up, Stop, StartResume [temp_point]]
       initial_service"

section \<open>Basic facts\<close>

lemma temp_point_fields [simp]:
  "key temp_point = ''temp''" "addressType temp_point = ''D''" "address temp_point = 100"
  "length_dp temp_point = 2" "bit_dp temp_point = None" "type_dp temp_point = TNumber"
  "pollingInterval temp_point = 500"
  by (simp_all add: temp_point_def)

lemma link_up_fields [simp]:
  "now link_up = 5000" "isConnectionActive link_up" "connect link_up = None"
  "readNumbers link_up c a n = Inr (replicate (nat n) 7)"
  "writeNumbers link_up c a ws = None"
  by (simp_all add: link_up_def)

lemma link_down_fields [simp]:
  "now link_down = 6000" "isConnectionActive link_down" "connect link_down = None"
  "readNumbers link_down c a n = Inl (Error ''timeout'')"
  "writeNumbers link_down c a ws = Some (Error ''timeout'')"
  by (simp_all add: link_down_def)

lemma initial_service_fields [simp]:
  "pollingTimers initial_service = []" "\<not> isPollingActive initial_service"
  "readCount initial_service = 0" "pollingStartTime initial_service = None"
  "intervals initial_service = []" "nextTimer initial_service = 0"
  "dataPoints initial_service = []" "plcCache initial_service = Map.empty"
  "pending initial_service = []"
  by (simp_all add: initial_service_def)

lemma running_service_fields:
  "isPollingActive running_service" "readCount running_service = 1"
  "intervals running_service = [(0, temp_point)]"
  "pollingTimers running_service = [(''temp'', 0)]"
  "pollingStartTime running_service = Some 5000"
  "dataPoints running_service = [temp_point]"
  "nextTimer running_service = 1"
  "pending running_service = []"
  by code_simp+

lemma getDeviceCode_D: "getDeviceCode ''D'' = Inr Dev_D"
  by code_simp

lemma getDeviceCode_d: "getDeviceCode ''d'' = Inr Dev_D"
  by code_simp

lemma pollDataPoint_eq:
  "pollDataPoint env dp s =
     (Inr (),
      case pollRead env dp of
        Inl e \<Rightarrow>
          s\<lparr>plcCache := (plcCache s)(key dp \<mapsto>
               \<lparr>c_key = key dp, c_value = getEmptyValueForType (type_dp dp),
                c_timestamp = now env, c_error = Some (message e)\<rparr>)\<rparr>
      | Inr v \<Rightarrow>
          s\<lparr>readCount := readCount s + 1,
            plcCache := (plcCache s)(key dp \<mapsto>
               \<lparr>c_key = key dp, c_value = v, c_timestamp = now env, c_error = None\<rparr>)\<rparr>)"
  by (simp add: pollDataPoint_def pollTry_def saveCache_def split: sum.splits)

lemma pollDataPoint_fields [simp]:
  "isPollingActive (snd (pollDataPoint env dp s)) = isPollingActive s"
  "pollingTimers (snd (pollDataPoint env dp s)) = pollingTimers s"
  "intervals (snd (pollDataPoint env dp s)) = intervals s"
  "nextTimer (snd (pollDataPoint env dp s)) = nextTimer s"
  "dataPoints (snd (pollDataPoint env dp s)) = dataPoints s"
  "pollingStartTime (snd (pollDataPoint env dp s)) = pollingStartTime s"
  "pending (snd (pollDataPoint env dp s)) = pending s"
  by (simp_all add: pollDataPoint_eq split: sum.splits)

lemma pollRead_down: "pollRead link_down temp_point = Inl (Error ''timeout'')"
  by (simp add: pollRead_def getDeviceCode_D)

lemma pollRead_up: "pollRead link_up temp_point = Inr (VNumbers [7, 7])"
  by (simp add: pollRead_def getDeviceCode_D numeral_2_eq_2)

section \<open>The poll executor records every outcome\<close>

text \<open>
  Claim C1. A poll never throws to its caller. When region resolution or the device read
  throws \<open>e\<close>, the poll upserts for the key a cache row holding the empty value of the data
  point's type and the message of \<open>e\<close>; when they give a value, the row holds that value and
  no error. The empty value is \<open>[]\<close> for a number, \<open>false\<close> for a bool, \<open>""\<close> for a string.
\<close>

theorem pollDataPoint_records_outcome:
  "fst (pollDataPoint env dp s) = Inr () \<and>
   (\<forall>e. pollRead env dp = Inl e \<longrightarrow>
      plcCache (snd (pollDataPoint env dp s)) =
        (plcCache s)(key dp \<mapsto>
           \<lparr>c_key = key dp, c_value = getEmptyValueForType (type_dp dp),
            c_timestamp = now env, c_error = Some (message e)\<rparr>)) \<and>
   (\<forall>v. pollRead env dp = Inr v \<longrightarrow>
      plcCache (snd (pollDataPoint env dp s)) =
        (plcCache s)(key dp \<mapsto>
           \<lparr>c_key = key dp, c_value = v, c_timestamp = now env, c_error = None\<rparr>)) \<and>
   getEmptyValueForType TNumber = VNumbers [] \<and>
   getEmptyValueForType TBool = VBool False \<and>
   getEmptyValueForType TString = VString ''''"
  by (simp add: pollDataPoint_eq getEmptyValueForType_def)

theorem pollDataPoint_records_outcome_witness:
  "pollRead link_down temp_point = Inl (Error ''timeout'') \<and>
   findCache ''temp'' (snd (pollDataPoint link_down temp_point initial_service)) =
     Some \<lparr>c_key = ''temp'', c_value = VNumbers [], c_timestamp = 6000,
           c_error = Some ''timeout''\<rparr> \<and>
   pollRead link_up temp_point = Inr (VNumbers [7, 7]) \<and>
   findCache ''temp'' (snd (pollDataPoint link_up temp_point initial_service)) =
     Some \<lparr>c_key = ''temp'', c_value = VNumbers [7, 7], c_timestamp = 5000,
           c_error = None\<rparr>"
proof -
  have down: "plcCache (snd (pollDataPoint link_down temp_point initial_service)) =
      (plcCache initial_service)(key temp_point \<mapsto>
         \<lparr>c_key = key temp_point, c_value = getEmptyValueForType (type_dp temp_point),
          c_timestamp = now link_down, c_error = Some (message (Error ''timeout''))\<rparr>)"
    using pollDataPoint_records_outcome [of link_down temp_point initial_service] pollRead_down
    by blast
  have up: "plcCache (snd (pollDataPoint link_up temp_point initial_service)) =
      (plcCache initial_service)(key temp_point \<mapsto>
         \<lparr>c_key = key temp_point, c_value = VNumbers [7, 7],
          c_timestamp = now link_up, c_error = None\<rparr>)"
    using pollDataPoint_records_outcome [of link_up temp_point initial_service] pollRead_up
    by blast
  show ?thesis
    by (simp add: down up pollRead_down pollRead_up findCache_def getEmptyValueForType_def)
qed

section \<open>The read counter\<close>

text \<open>
  Claim C3, as stated, fails: with the scheduler running, a timer tick whose device read
  times out leaves \<open>readCount\<close> where it was.
\<close>

theorem readCount_failed_poll_counterexample:
  "isPollingActive running_service \<and>
   map_of (intervals running_service) 0 = Some temp_point \<and>
   pollRead link_down temp_point = Inl (Error ''timeout'') \<and>
   readCount (timerTick link_down 0 running_service) = readCount running_service"
  by (simp add: running_service_fields timerTick_def pollDataPoint_eq pollRead_down)

text \<open>
  Claim C3, amended. A poll adds one to \<open>readCount\<close> when region resolution and the device
  read give a value, and leaves \<open>readCount\<close> unchanged when either of them throws.
\<close>

theorem pollDataPoint_readCount:
  "readCount (snd (pollDataPoint env dp s)) =
     (case pollRead env dp of Inl e \<Rightarrow> readCount s | Inr v \<Rightarrow> readCount s + 1)"
  by (simp add: pollDataPoint_eq split: sum.splits)

theorem pollDataPoint_readCount_witness:
  "readCount (snd (pollDataPoint link_up temp_point running_service)) = 2 \<and>
   readCount (snd (pollDataPoint link_down temp_point running_service)) = 1"
  using pollDataPoint_readCount [of link_up temp_point running_service]
    pollDataPoint_readCount [of link_down temp_point running_service]
  by (simp add: pollRead_up pollRead_down running_service_fields)

section \<open>Region-code resolution is case-insensitive and total\<close>

lemma map_of_device_map_None:
  "x \<notin> {''D'', ''R'', ''M'', ''X'', ''Y''} \<Longrightarrow> map_of device_map x = None"
  by (simp add: device_map_def)

lemma map_of_device_map_Some:
  "x \<in> {''D'', ''R'', ''M'', ''X'', ''Y''} \<Longrightarrow> \<exists>c. map_of device_map x = Some c"
  by (auto simp add: device_map_def)

lemma getDeviceCode_invalid:
  "toUpperCase a \<notin> {''D'', ''R'', ''M'', ''X'', ''Y''} \<Longrightarrow>
   getDeviceCode a = Inl (BadRequestException (''Invalid address type: '' @ a))"
  by (simp add: getDeviceCode_def map_of_device_map_None)

lemma getDeviceCode_valid_iff:
  "(\<exists>c. getDeviceCode a = Inr c) \<longleftrightarrow> toUpperCase a \<in> {''D'', ''R'', ''M'', ''X'', ''Y''}"
proof (cases "toUpperCase a \<in> {''D'', ''R'', ''M'', ''X'', ''Y''}")
  case True
  then obtain c where "map_of device_map (toUpperCase a) = Some c"
    using map_of_device_map_Some by blast
  then show ?thesis using True by (simp add: getDeviceCode_def)
next
  case False
  then show ?thesis by (simp add: getDeviceCode_invalid)
qed

lemma getDeviceCode_upper:
  "toUpperCase a = toUpperCase b \<Longrightarrow> getDeviceCode a = Inr c \<longleftrightarrow> getDeviceCode b = Inr c"
  by (simp add: getDeviceCode_def split: option.splits)

lemma writeData_invalid_region:
  "findDataPoint k s = Some dp \<Longrightarrow> getDeviceCode (addressType dp) = Inl e \<Longrightarrow>
   writeData env k v s = (Inl e, s)"
  by (simp add: writeData_def)

lemma pollDataPoint_invalid_region:
  "getDeviceCode (addressType dp) = Inl e \<Longrightarrow>
   pollDataPoint env dp s =
     (Inr (), s\<lparr>plcCache := (plcCache s)(key dp \<mapsto>
        \<lparr>c_key = key dp, c_value = getEmptyValueForType (type_dp dp),
         c_timestamp = now env, c_error = Some (message e)\<rparr>)\<rparr>)"
  by (simp add: pollDataPoint_eq pollRead_def)

lemma zone_point_fields [simp]:
  "key zone_point = ''zone''" "addressType zone_point = ''z''" "address zone_point = 0"
  "length_dp zone_point = 1" "bit_dp zone_point = None" "type_dp zone_point = TNumber"
  "pollingInterval zone_point = 1000"
  by (simp_all add: zone_point_def)

lemma toUpperCase_z: "toUpperCase ''z'' = ''Z''"
  by code_simp

lemma zone_registered:
  "findDataPoint ''zone'' (run [Register link_up zone_dto] initial_service) = Some zone_point"
  by code_simp

text \<open>
  Claim C10. \<open>getDeviceCode\<close> upper-cases the address type before the lookup, so two
  spellings with the same upper-casing resolve alike, \<open>d\<close> and \<open>D\<close> both to region D. It
  returns a region exactly when the upper-casing is one of D, R, M, X, Y and throws a
  \<open>BadRequestException\<close> otherwise. On the write path that exception reaches the caller and
  the state is untouched; on the poll path it is caught and its message is stored in the
  cache row of the key.
\<close>

theorem getDeviceCode_case_insensitive:
  "(toUpperCase a = toUpperCase b \<longrightarrow>
      (\<forall>c. getDeviceCode a = Inr c \<longleftrightarrow> getDeviceCode b = Inr c)) \<and>
   getDeviceCode ''d'' = Inr Dev_D \<and> getDeviceCode ''D'' = Inr Dev_D \<and>
   ((\<exists>c. getDeviceCode a = Inr c) \<longleftrightarrow> toUpperCase a \<in> {''D'', ''R'', ''M'', ''X'', ''Y''}) \<and>
   (toUpperCase a \<notin> {''D'', ''R'', ''M'', ''X'', ''Y''} \<longrightarrow>
      getDeviceCode a = Inl (BadRequestException (''Invalid address type: '' @ a))) \<and>
   (toUpperCase (addressType dp) \<notin> {''D'', ''R'', ''M'', ''X'', ''Y''} \<longrightarrow>
      (findDataPoint k s = Some dp \<longrightarrow>
         writeData env k v s =
           (Inl (BadRequestException (''Invalid address type: '' @ addressType dp)), s)) \<and>
      pollDataPoint env dp s =
        (Inr (), s\<lparr>plcCache := (plcCache s)(key dp \<mapsto>
           \<lparr>c_key = key dp, c_value = getEmptyValueForType (type_dp dp),
            c_timestamp = now env,
            c_error = Some (''Invalid address type: '' @ addressType dp)\<rparr>)\<rparr>))"
proof -
  have "toUpperCase a = toUpperCase b \<longrightarrow>
      (\<forall>c. getDeviceCode a = Inr c \<longleftrightarrow> getDeviceCode b = Inr c)"
    using getDeviceCode_upper by blast
  moreover have "toUpperCase (addressType dp) \<notin> {''D'', ''R'', ''M'', ''X'', ''Y''} \<longrightarrow>
      (findDataPoint k s = Some dp \<longrightarrow>
         writeData env k v s =
           (Inl (BadRequestException (''Invalid address type: '' @ addressType dp)), s)) \<and>
      pollDataPoint env dp s =
        (Inr (), s\<lparr>plcCache := (plcCache s)(key dp \<mapsto>
           \<lparr>c_key = key dp, c_value = getEmptyValueForType (type_dp dp),
            c_timestamp = now env,
            c_error = Some (''Invalid address type: '' @ addressType dp)\<rparr>)\<rparr>)"
    using getDeviceCode_invalid [of "addressType dp"]
      writeData_invalid_region [of k s dp _ env v]
      pollDataPoint_invalid_region [of dp _ env s]
    by simp
  ultimately show ?thesis
    using getDeviceCode_d getDeviceCode_D getDeviceCode_valid_iff [of a]
      getDeviceCode_invalid [of a]
    by blast
qed

theorem getDeviceCode_case_insensitive_witness:
  "toUpperCase ''d'' = toUpperCase ''D'' \<and>
   toUpperCase ''z'' \<notin> {''D'', ''R'', ''M'', ''X'', ''Y''} \<and>
   getDeviceCode ''z'' = Inl (BadRequestException ''Invalid address type: z'') \<and>
   fst (writeData link_up ''zone'' (VNumbers [1]) (run [Register link_up zone_dto] initial_service)) =
     Inl (BadRequestException ''Invalid address type: z'') \<and>
   fst (pollDataPoint link_up zone_point initial_service) = Inr () \<and>
   findCache ''zone'' (snd (pollDataPoint link_up zone_point initial_service)) =
     Some \<lparr>c_key = ''zone'', c_value = VNumbers [], c_timestamp = 5000,
           c_error = Some ''Invalid address type: z''\<rparr>"
proof -
  have z: "toUpperCase (addressType zone_point) \<notin> {''D'', ''R'', ''M'', ''X'', ''Y''}"
    by (simp add: toUpperCase_z)
  note c = getDeviceCode_case_insensitive [of "''z''" "''Z''" zone_point "''zone''"
      "run [Register link_up zone_dto] initial_service" link_up "VNumbers [1]"]
  note c0 = getDeviceCode_case_insensitive [of "''d''" "''D''" zone_point "''zone''"
      initial_service link_up "VNumbers [1]"]
  have w: "writeData link_up ''zone'' (VNumbers [1]) (run [Register link_up zone_dto] initial_service) =
      (Inl (BadRequestException (''Invalid address type: '' @ addressType zone_point)),
       run [Register link_up zone_dto] initial_service)"
    using c z zone_registered by blast
  have p: "pollDataPoint link_up zone_point initial_service =
        (Inr (), initial_service\<lparr>plcCache := (plcCache initial_service)(key zone_point \<mapsto>
           \<lparr>c_key = key zone_point, c_value = getEmptyValueForType (type_dp zone_point),
            c_timestamp = now link_up,
            c_error = Some (''Invalid address type: '' @ addressType zone_point)\<rparr>)\<rparr>)"
    using c0 z by blast
  have g: "getDeviceCode ''z'' = Inl (BadRequestException (''Invalid address type: '' @ ''z''))"
    using c z by simp
  show ?thesis
    using z by (simp add: w p g findCache_def getEmptyValueForType_def toUpperCase_z)
      (code_simp)
qed

section \<open>A failed write leaves the state alone\<close>

lemma writeData_cases:
  "writeData env k v s =
     (case findDataPoint k s of
        None \<Rightarrow> (Inl (BadRequestException (''Data point not found: '' @ k)), s)
      | Some dp \<Rightarrow>
          (case getDeviceCode (addressType dp) of
             Inl e \<Rightarrow> (Inl e, s)
           | Inr deviceCode \<Rightarrow>
               (case writeDevice env k dp deviceCode v of
                  Some e \<Rightarrow> (Inl e, s)
                | None \<Rightarrow>
                    (Inr (), s\<lparr>plcCache := (plcCache s)(k \<mapsto>
                       \<lparr>c_key = k, c_value = v, c_timestamp = now env, c_error = None\<rparr>)\<rparr>))))"
  by (simp add: writeData_def saveCache_def split: option.splits sum.splits)

lemma writeData_failure_state:
  "fst (writeData env k v s) = Inl e \<Longrightarrow> snd (writeData env k v s) = s"
  by (simp add: writeData_cases split: option.splits sum.splits)

lemma writeData_success:
  "fst (writeData env k v s) = Inr () \<Longrightarrow>
   (\<exists>dp code. findDataPoint k s = Some dp \<and> getDeviceCode (addressType dp) = Inr code \<and>
      writeDevice env k dp code v = None) \<and>
   snd (writeData env k v s) =
     s\<lparr>plcCache := (plcCache s)(k \<mapsto>
        \<lparr>c_key = k, c_value = v, c_timestamp = now env, c_error = None\<rparr>)\<rparr>"
proof -
  assume ok: "fst (writeData env k v s) = Inr ()"
  then obtain dp where dp: "findDataPoint k s = Some dp"
    by (cases "findDataPoint k s") (simp_all add: writeData_cases)
  with ok obtain code where code: "getDeviceCode (addressType dp) = Inr code"
    by (cases "getDeviceCode (addressType dp)") (simp_all add: writeData_cases)
  with ok dp have w: "writeDevice env k dp code v = None"
    by (cases "writeDevice env k dp code v") (simp_all add: writeData_cases)
  show ?thesis
    using dp code w by (simp add: writeData_cases)
qed

lemma writeDevice_mismatch:
  "\<not> hasType (type_dp dp) v \<Longrightarrow> \<exists>m. writeDevice env k dp code v = Some (BadRequestException m)"
  by (cases "type_dp dp"; cases v) (simp_all add: writeDevice_def hasType_def)

lemma writeDevice_missing_bit:
  "type_dp dp = TBool \<Longrightarrow> bit_dp dp = None \<Longrightarrow>
   \<exists>m. writeDevice env k dp code v = Some (BadRequestException m)"
  by (cases v) (simp_all add: writeDevice_def)

lemma getDeviceCode_error:
  "getDeviceCode a = Inl e \<Longrightarrow> \<exists>m. e = BadRequestException m"
  by (auto simp add: getDeviceCode_def split: option.splits)

lemma writeData_validation:
  assumes "findDataPoint k s = Some dp"
    and "\<And>code. \<exists>m. writeDevice env k dp code v = Some (BadRequestException m)"
  shows "\<exists>m. writeData env k v s = (Inl (BadRequestException m), s)"
proof (cases "getDeviceCode (addressType dp)")
  case (Inl e)
  then show ?thesis
    using assms(1) getDeviceCode_error [OF Inl] by (auto simp add: writeData_cases)
next
  case (Inr code)
  obtain m where "writeDevice env k dp code v = Some (BadRequestException m)"
    using assms(2) by blast
  then show ?thesis
    using assms(1) Inr by (simp add: writeData_cases)
qed

lemma writeData_transport:
  "findDataPoint k s = Some dp \<Longrightarrow> getDeviceCode (addressType dp) = Inr code \<Longrightarrow>
   writeDevice env k dp code v = Some e \<Longrightarrow> writeData env k v s = (Inl e, s)"
  by (simp add: writeData_cases)

lemma writeDevice_numbers:
  "type_dp dp = TNumber \<Longrightarrow>
   writeDevice env k dp code (VNumbers ws) = writeNumbers env code (address dp) ws"
  by (simp add: writeDevice_def)

lemma temp_registered: "findDataPoint ''temp'' running_service = Some temp_point"
  by (simp add: findDataPoint_def running_service_fields)

text \<open>
  Claim C2. When \<open>writeData\<close> throws, the whole state, and with it the cache row of the key,
  is as before the call. It returns normally only when the definition exists, its region
  resolves and the device write went through, and then the row of the key holds the
  written value with no error. A value of the wrong type for the key, a bool key without
  a bit position and an unknown region each throw a \<open>BadRequestException\<close>; an exception of
  the device write is thrown on as it is.
\<close>

theorem writeData_failure_keeps_cache:
  "(\<forall>e. fst (writeData env k v s) = Inl e \<longrightarrow> snd (writeData env k v s) = s) \<and>
   (fst (writeData env k v s) = Inr () \<longrightarrow>
      (\<exists>dp code. findDataPoint k s = Some dp \<and> getDeviceCode (addressType dp) = Inr code \<and>
         writeDevice env k dp code v = None) \<and>
      snd (writeData env k v s) =
        s\<lparr>plcCache := (plcCache s)(k \<mapsto>
           \<lparr>c_key = k, c_value = v, c_timestamp = now env, c_error = None\<rparr>)\<rparr>) \<and>
   (\<forall>dp. findDataPoint k s = Some dp \<longrightarrow>
      (\<not> hasType (type_dp dp) v \<longrightarrow>
         (\<exists>m. writeData env k v s = (Inl (BadRequestException m), s))) \<and>
      (type_dp dp = TBool \<and> bit_dp dp = None \<longrightarrow>
         (\<exists>m. writeData env k v s = (Inl (BadRequestException m), s))) \<and>
      (\<forall>e. getDeviceCode (addressType dp) = Inl e \<longrightarrow> writeData env k v s = (Inl e, s)) \<and>
      (\<forall>code e. getDeviceCode (addressType dp) = Inr code \<longrightarrow>
         writeDevice env k dp code v = Some e \<longrightarrow> writeData env k v s = (Inl e, s)))"
proof -
  have a: "\<forall>e. fst (writeData env k v s) = Inl e \<longrightarrow> snd (writeData env k v s) = s"
    using writeData_failure_state by blast
  have b: "fst (writeData env k v s) = Inr () \<longrightarrow>
      (\<exists>dp code. findDataPoint k s = Some dp \<and> getDeviceCode (addressType dp) = Inr code \<and>
         writeDevice env k dp code v = None) \<and>
      snd (writeData env k v s) =
        s\<lparr>plcCache := (plcCache s)(k \<mapsto>
           \<lparr>c_key = k, c_value = v, c_timestamp = now env, c_error = None\<rparr>)\<rparr>"
    using writeData_success by blast
  have c: "\<forall>dp. findDataPoint k s = Some dp \<longrightarrow>
      (\<not> hasType (type_dp dp) v \<longrightarrow>
         (\<exists>m. writeData env k v s = (Inl (BadRequestException m), s)))"
    using writeData_validation writeDevice_mismatch by blast
  have d: "\<forall>dp. findDataPoint k s = Some dp \<longrightarrow>
      (type_dp dp = TBool \<and> bit_dp dp = None \<longrightarrow>
         (\<exists>m. writeData env k v s = (Inl (BadRequestException m), s)))"
    using writeData_validation writeDevice_missing_bit by blast
  have e: "\<forall>dp. findDataPoint k s = Some dp \<longrightarrow>
      (\<forall>e. getDeviceCode (addressType dp) = Inl e \<longrightarrow> writeData env k v s = (Inl e, s))"
    using writeData_invalid_region by blast
  have f: "\<forall>dp. findDataPoint k s = Some dp \<longrightarrow>
      (\<forall>code e. getDeviceCode (addressType dp) = Inr code \<longrightarrow>
         writeDevice env k dp code v = Some e \<longrightarrow> writeData env k v s = (Inl e, s))"
    using writeData_transport by blast
  from a b c d e f show ?thesis by blast
qed

theorem writeData_failure_keeps_cache_witness:
  "findDataPoint ''temp'' running_service = Some temp_point \<and>
   \<not> hasType (type_dp temp_point) (VBool True) \<and>
   fst (writeData link_up ''temp'' (VBool True) running_service) =
     Inl (BadRequestException ''Value must be number array for temp'') \<and>
   snd (writeData link_up ''temp'' (VBool True) running_service) = running_service \<and>
   writeData link_down ''temp'' (VNumbers [1, 2]) running_service =
     (Inl (Error ''timeout''), running_service) \<and>
   fst (writeData link_up ''temp'' (VNumbers [1, 2]) running_service) = Inr () \<and>
   findCache ''temp'' (snd (writeData link_up ''temp'' (VNumbers [1, 2]) running_service)) =
     Some \<lparr>c_key = ''temp'', c_value = VNumbers [1, 2], c_timestamp = 5000, c_error = None\<rparr>"
proof -
  have bad: "fst (writeData link_up ''temp'' (VBool True) running_service) =
      Inl (BadRequestException ''Value must be number array for temp'')"
    by (simp add: writeData_cases temp_registered getDeviceCode_D writeDevice_def)
  have bad_state: "snd (writeData link_up ''temp'' (VBool True) running_service) = running_service"
    using writeData_failure_keeps_cache [of link_up "''temp''" "VBool True" running_service] bad
    by blast
  have down: "writeDevice link_down ''temp'' temp_point Dev_D (VNumbers [1, 2]) =
      Some (Error ''timeout'')"
    by (simp add: writeDevice_def)
  have down_state: "writeData link_down ''temp'' (VNumbers [1, 2]) running_service =
      (Inl (Error ''timeout''), running_service)"
    using writeData_failure_keeps_cache [of link_down "''temp''" "VNumbers [1, 2]" running_service]
      temp_registered getDeviceCode_D down
    by (metis temp_point_fields(2))
  have ok: "fst (writeData link_up ''temp'' (VNumbers [1, 2]) running_service) = Inr ()"
    by (simp add: writeData_cases temp_registered getDeviceCode_D writeDevice_def)
  have ok_state: "snd (writeData link_up ''temp'' (VNumbers [1, 2]) running_service) =
      running_service\<lparr>plcCache := (plcCache running_service)(''temp'' \<mapsto>
        \<lparr>c_key = ''temp'', c_value = VNumbers [1, 2], c_timestamp = now link_up,
         c_error = None\<rparr>)\<rparr>"
    using writeData_failure_keeps_cache [of link_up "''temp''" "VNumbers [1, 2]" running_service] ok
    by blast
  show ?thesis
    by (simp add: temp_registered bad bad_state down_state ok ok_state findCache_def hasType_def)
qed

section \<open>What the scheduler steps leave alone\<close>

lemma stopPollingForDataPoint_fields [simp]:
  "isPollingActive (stopPollingForDataPoint k s) = isPollingActive s"
  "readCount (stopPollingForDataPoint k s) = readCount s"
  "pollingStartTime (stopPollingForDataPoint k s) = pollingStartTime s"
  "nextTimer (stopPollingForDataPoint k s) = nextTimer s"
  "dataPoints (stopPollingForDataPoint k s) = dataPoints s"
  "plcCache (stopPollingForDataPoint k s) = plcCache s"
  "pending (stopPollingForDataPoint k s) = pending s"
  by (simp_all add: stopPollingForDataPoint_def split: option.splits)

lemma startPollingForDataPoint_fields [simp]:
  "isPollingActive (startPollingForDataPoint env dp s) = isPollingActive s"
  "pollingStartTime (startPollingForDataPoint env dp s) = pollingStartTime s"
  "dataPoints (startPollingForDataPoint env dp s) = dataPoints s"
  "nextTimer (startPollingForDataPoint env dp s) = Suc (nextTimer s)"
  "pending (startPollingForDataPoint env dp s) = pending s"
  by (simp_all add: startPollingForDataPoint_def setInterval_def Let_def)

lemma fold_startPollingForDataPoint_fields [simp]:
  "isPollingActive (fold (startPollingForDataPoint env) dps s) = isPollingActive s"
  "pollingStartTime (fold (startPollingForDataPoint env) dps s) = pollingStartTime s"
  "dataPoints (fold (startPollingForDataPoint env) dps s) = dataPoints s"
  "pending (fold (startPollingForDataPoint env) dps s) = pending s"
  by (induction dps arbitrary: s) simp_all

lemma startPolling_active:
  "fst (startPolling env s) = Inr () \<Longrightarrow> isPollingActive (snd (startPolling env s))"
  by (simp add: startPolling_def findAllDataPoints_def Let_def split: if_splits option.splits)

section \<open>Registration and the polling interval\<close>

text \<open>
  Claim C4. Registration is to refuse a polling interval below 100 ms, the minimum that
  the registration form states. \<open>registerDataPoint\<close> does not: asked for an interval of
  50 ms it stores the definition with that interval and returns it, and on a running
  scheduler it installs the timer of the definition.
\<close>

theorem registerDataPoint_accepts_below_floor:
  "dto_pollingInterval fast_dto = Some 50 \<and>
   fst (registerDataPoint link_up fast_dto initial_service) = Inr fast_point \<and>
   findDataPoint ''fast'' (snd (registerDataPoint link_up fast_dto initial_service)) =
     Some fast_point \<and>
   pollingInterval fast_point = 50 \<and>
   fst (registerDataPoint link_up fast_dto running_service) = Inr fast_point \<and>
   intervals (snd (registerDataPoint link_up fast_dto running_service)) =
     [(0, temp_point), (1, fast_point)]"
  by code_simp

section \<open>Starting twice\<close>

text \<open>
  Claim C5. \<open>startPolling\<close> on a running scheduler returns at once and changes nothing: no
  timer is created, replaced or cleared, and \<open>readCount\<close> and the start time stay. So a
  second \<open>startPolling\<close> after one that returned normally leaves the state of the first,
  whatever the link does in between; and with the link answering the second call as it
  answered the first, two calls leave the state of one even when the first one threw.
\<close>

theorem startPolling_twice:
  "(isPollingActive s \<longrightarrow> startPolling env s = (Inr (), s)) \<and>
   (fst (startPolling env s) = Inr () \<longrightarrow>
      startPolling env2 (snd (startPolling env s)) = (Inr (), snd (startPolling env s))) \<and>
   snd (startPolling env (snd (startPolling env s))) = snd (startPolling env s)"
proof -
  have noop: "\<And>e t. isPollingActive t \<Longrightarrow> startPolling e t = (Inr (), t)"
    by (simp add: startPolling_def)
  have same: "snd (startPolling env (snd (startPolling env s))) = snd (startPolling env s)"
  proof (cases "fst (startPolling env s)")
    case (Inl e)
    then have "snd (startPolling env s) = s"
      by (simp add: startPolling_def Let_def split: if_splits option.splits)
    then show ?thesis by simp
  next
    case (Inr u)
    then show ?thesis using noop startPolling_active by simp
  qed
  show ?thesis
    using noop same startPolling_active by blast
qed

theorem startPolling_twice_witness:
  "\<not> isPollingActive (run [Register link_up temp_dto] initial_service) \<and>
   fst (startPolling link_up (run [Register link_up temp_dto] initial_service)) = Inr () \<and>
   snd (startPolling link_up (run [Register link_up temp_dto] initial_service)) = running_service \<and>
   isPollingActive running_service \<and>
   startPolling link_down running_service = (Inr (), running_service) \<and>
   intervals (snd (startPolling link_down running_service)) = [(0, temp_point)] \<and>
   readCount (snd (startPolling link_down running_service)) = 1 \<and>
   pollingStartTime (snd (startPolling link_down running_service)) = Some 5000"
proof -
  have r: "snd (startPolling link_up (run [Register link_up temp_dto] initial_service)) =
      running_service"
    by (simp add: running_service_def run_def)
  have n: "\<not> isPollingActive (run [Register link_up temp_dto] initial_service)"
    by code_simp
  have f: "fst (startPolling link_up (run [Register link_up temp_dto] initial_service)) = Inr ()"
    using n by (simp add: startPolling_def Let_def)
  have twice: "startPolling link_down running_service = (Inr (), running_service)"
    using startPolling_twice [of "run [Register link_up temp_dto] initial_service" link_up link_down]
      f r by simp
  show ?thesis
    using n f r twice by (simp add: running_service_fields)
qed

section \<open>The timer invariant holds in every run\<close>

lemma timers_inv_pollDataPoint [simp]:
  "timers_inv (snd (pollDataPoint env dp s)) = timers_inv s"
  by (simp add: timers_inv_def)

lemma timers_inv_initial: "timers_inv initial_service"
  by (simp add: timers_inv_def)

lemma same_handle_same_key:
  assumes "distinct (map fst pt)" and "distinct (map snd pt)"
    and "(k1, h1) \<in> set pt" and "(k2, h2) \<in> set pt"
  shows "(h1 = h2) = (k1 = k2)"
proof
  assume "h1 = h2"
  moreover have "inj_on snd (set pt)" using assms(2) by (simp add: distinct_map)
  ultimately have "(k1, h1) = (k2, h2)"
    using assms(3,4) inj_onD [of snd "set pt" "(k1, h1)" "(k2, h2)"] by simp
  then show "k1 = k2" by simp
next
  assume "k1 = k2"
  then show "h1 = h2" using assms(1,3,4) by (auto dest: eq_key_imp_eq_value)
qed

lemma stopPollingForDataPoint_pollingTimers:
  "pollingTimers (stopPollingForDataPoint k s) = AList.delete k (pollingTimers s)"
proof (cases "map_of (pollingTimers s) k")
  case None
  then have "k \<notin> fst ` set (pollingTimers s)" by (simp add: map_of_eq_None_iff)
  then show ?thesis using None by (simp add: stopPollingForDataPoint_def)
next
  case (Some t)
  then show ?thesis by (simp add: stopPollingForDataPoint_def)
qed

lemma stopPollingForDataPoint_intervals:
  assumes "timers_inv s"
  shows "intervals (stopPollingForDataPoint k s) =
           filter (\<lambda>(h, dp). key dp \<noteq> k) (intervals s)"
proof (cases "map_of (pollingTimers s) k")
  case None
  then have "k \<notin> fst ` set (pollingTimers s)" by (simp add: map_of_eq_None_iff)
  moreover have "\<And>h dp. (h, dp) \<in> set (intervals s) \<Longrightarrow> key dp \<in> fst ` set (pollingTimers s)"
    using assms by (force simp add: timers_inv_def)
  ultimately have "\<And>h dp. (h, dp) \<in> set (intervals s) \<Longrightarrow> key dp \<noteq> k"
    by blast
  then have "filter (\<lambda>(h, dp). key dp \<noteq> k) (intervals s) = intervals s"
    by (intro filter_True) auto
  then show ?thesis using None by (simp add: stopPollingForDataPoint_def)
next
  case (Some t)
  then have kt: "(k, t) \<in> set (pollingTimers s)" by (rule map_of_SomeD)
  have "\<And>x. x \<in> set (intervals s) \<Longrightarrow>
      (case x of (h, dp) \<Rightarrow> h \<noteq> t) = (case x of (h, dp) \<Rightarrow> key dp \<noteq> k)"
  proof -
    fix x assume m: "x \<in> set (intervals s)"
    obtain h dp where x: "x = (h, dp)" by (cases x)
    have "(key dp, h) \<in> set (pollingTimers s)"
      using assms m x by (auto simp add: timers_inv_def)
    then have "(h = t) = (key dp = k)"
      using same_handle_same_key [of "pollingTimers s" "key dp" h k t] assms kt
      by (simp add: timers_inv_def)
    then show "(case x of (h, dp) \<Rightarrow> h \<noteq> t) = (case x of (h, dp) \<Rightarrow> key dp \<noteq> k)"
      using x by simp
  qed
  then have "filter (\<lambda>(h, dp). h \<noteq> t) (intervals s) =
      filter (\<lambda>(h, dp). key dp \<noteq> k) (intervals s)"
    by (rule filter_cong [OF refl])
  then show ?thesis using Some by (simp add: stopPollingForDataPoint_def clearInterval_def)
qed

lemma update_absent: "k \<notin> fst ` set al \<Longrightarrow> AList.update k v al = al @ [(k, v)]"
  by (induction al) auto

lemma startPollingForDataPoint_pollingTimers:
  "pollingTimers (startPollingForDataPoint env dp s) =
     AList.delete (key dp) (pollingTimers s) @ [(key dp, nextTimer s)]"
  by (simp add: startPollingForDataPoint_def setInterval_def Let_def
      stopPollingForDataPoint_pollingTimers update_absent delete_notin_dom)

lemma startPollingForDataPoint_intervals:
  "timers_inv s \<Longrightarrow>
   intervals (startPollingForDataPoint env dp s) =
     filter (\<lambda>(h, d). key d \<noteq> key dp) (intervals s) @ [(nextTimer s, dp)]"
  by (simp add: startPollingForDataPoint_def setInterval_def Let_def
      stopPollingForDataPoint_intervals)

lemma timers_inv_stopPollingForDataPoint:
  assumes "timers_inv s"
  shows "timers_inv (stopPollingForDataPoint k s)"
proof -
  have "distinct (map fst (AList.delete k (pollingTimers s)))"
    using assms by (simp add: timers_inv_def distinct_delete)
  moreover have "distinct (map snd (AList.delete k (pollingTimers s)))"
    using assms by (simp add: timers_inv_def AList.delete_eq distinct_map_filter)
  moreover have "distinct (map fst (filter (\<lambda>(h, dp). key dp \<noteq> k) (intervals s)))"
    using assms by (simp add: timers_inv_def distinct_map_filter)
  moreover have "\<forall>(k', h) \<in> set (AList.delete k (pollingTimers s)). h < nextTimer s"
    using assms by (auto simp add: timers_inv_def AList.delete_eq)
  moreover have "\<forall>(h, dp) \<in> set (filter (\<lambda>(h, dp). key dp \<noteq> k) (intervals s)).
      (key dp, h) \<in> set (AList.delete k (pollingTimers s))"
    using assms by (auto simp add: timers_inv_def AList.delete_eq)
  ultimately show ?thesis
    using assms
    by (simp add: timers_inv_def [of "stopPollingForDataPoint k s"]
        stopPollingForDataPoint_pollingTimers stopPollingForDataPoint_intervals)
qed

lemma timers_inv_startPollingForDataPoint:
  assumes "timers_inv s"
  shows "timers_inv (startPollingForDataPoint env dp s)"
proof -
  let ?pt = "AList.delete (key dp) (pollingTimers s)"
  let ?iv = "filter (\<lambda>(h, d). key d \<noteq> key dp) (intervals s)"
  have fresh_pt: "\<And>k h. (k, h) \<in> set (pollingTimers s) \<Longrightarrow> h < nextTimer s"
    using assms by (auto simp add: timers_inv_def)
  have fresh_iv: "\<And>h d. (h, d) \<in> set (intervals s) \<Longrightarrow> h < nextTimer s"
    using assms fresh_pt by (fastforce simp add: timers_inv_def)
  have "distinct (map fst (?pt @ [(key dp, nextTimer s)]))"
    using assms delete_notin_dom [of "key dp" "pollingTimers s"]
    by (simp add: timers_inv_def distinct_delete)
  moreover have "distinct (map snd (?pt @ [(key dp, nextTimer s)]))"
    using assms fresh_pt by (auto simp add: timers_inv_def AList.delete_eq distinct_map_filter)
  moreover have "distinct (map fst (?iv @ [(nextTimer s, dp)]))"
  proof -
    have "nextTimer s \<notin> fst ` set (intervals s)"
      using fresh_iv by fastforce
    then have "nextTimer s \<notin> fst ` set ?iv"
      by auto
    then show ?thesis
      using assms by (simp add: timers_inv_def distinct_map_filter)
  qed
  moreover have "\<forall>(k, h) \<in> set (?pt @ [(key dp, nextTimer s)]). h < Suc (nextTimer s)"
    using fresh_pt by (auto simp add: AList.delete_eq less_Suc_eq)
  moreover have "\<forall>(h, d) \<in> set (?iv @ [(nextTimer s, dp)]).
      (key d, h) \<in> set (?pt @ [(key dp, nextTimer s)])"
    using assms by (auto simp add: timers_inv_def AList.delete_eq)
  ultimately show ?thesis
    using assms
    by (simp add: timers_inv_def [of "startPollingForDataPoint env dp s"]
        startPollingForDataPoint_pollingTimers startPollingForDataPoint_intervals)
qed

lemma timers_inv_fold_start:
  "timers_inv s \<Longrightarrow> timers_inv (fold (startPollingForDataPoint env) dps s)"
  by (induction dps arbitrary: s) (simp_all add: timers_inv_startPollingForDataPoint)

lemma fold_clearInterval:
  "fold (\<lambda>(k, timer). clearInterval timer) pt iv =
     filter (\<lambda>(h, d). h \<notin> snd ` set pt) iv"
proof (induction pt arbitrary: iv)
  case Nil
  then show ?case by simp
next
  case (Cons p pt)
  obtain k t where p: "p = (k, t)" by (cases p)
  have "filter (\<lambda>(h, d). h \<notin> snd ` set pt) (filter (\<lambda>(h, d). h \<noteq> t) iv) =
      filter (\<lambda>(h, d). h \<notin> snd ` set ((k, t) # pt)) iv"
    by (induction iv) auto
  then show ?case using Cons.IH p by (simp add: clearInterval_def)
qed

lemma stopPolling_fields:
  "\<not> isPollingActive (stopPolling s)"
  "isPollingActive s \<Longrightarrow> readCount (stopPolling s) = 0"
  "isPollingActive s \<Longrightarrow> pollingStartTime (stopPolling s) = None"
  "isPollingActive s \<Longrightarrow> pollingTimers (stopPolling s) = []"
  "nextTimer (stopPolling s) = nextTimer s"
  "dataPoints (stopPolling s) = dataPoints s"
  "plcCache (stopPolling s) = plcCache s"
  "pending (stopPolling s) = pending s"
  by (simp_all add: stopPolling_def Let_def)

lemma stopPolling_intervals:
  assumes "timers_inv s" and "isPollingActive s"
  shows "intervals (stopPolling s) = []"
proof -
  have "\<And>h d. (h, d) \<in> set (intervals s) \<Longrightarrow> h \<in> snd ` set (pollingTimers s)"
    using assms(1) by (force simp add: timers_inv_def)
  then have "filter (\<lambda>(h, d). h \<notin> snd ` set (pollingTimers s)) (intervals s) = []"
    by (auto simp add: filter_empty_conv)
  then show ?thesis
    using assms(2) by (simp add: stopPolling_def Let_def fold_clearInterval)
qed

lemma timers_inv_stopPolling:
  assumes "timers_inv s"
  shows "timers_inv (stopPolling s)"
proof (cases "isPollingActive s")
  case True
  then show ?thesis
    using stopPolling_intervals [OF assms True]
    by (simp add: timers_inv_def [of "stopPolling s"] stopPolling_fields)
next
  case False
  then show ?thesis using assms by (simp add: stopPolling_def)
qed

lemma timers_inv_fields_cong:
  "pollingTimers t = pollingTimers s \<Longrightarrow> intervals t = intervals s \<Longrightarrow>
   nextTimer t = nextTimer s \<Longrightarrow> timers_inv t = timers_inv s"
  by (simp add: timers_inv_def)

lemma launchPollingForDataPoint_timers:
  "pollingTimers (launchPollingForDataPoint dp s) =
     pollingTimers (startPollingForDataPoint env dp s)"
  "intervals (launchPollingForDataPoint dp s) = intervals (startPollingForDataPoint env dp s)"
  "nextTimer (launchPollingForDataPoint dp s) = nextTimer (startPollingForDataPoint env dp s)"
  by (simp_all add: launchPollingForDataPoint_def startPollingForDataPoint_def launchPoll_def
      setInterval_def Let_def)

lemma launchPollingForDataPoint_fields [simp]:
  "isPollingActive (launchPollingForDataPoint dp s) = isPollingActive s"
  "pollingStartTime (launchPollingForDataPoint dp s) = pollingStartTime s"
  "dataPoints (launchPollingForDataPoint dp s) = dataPoints s"
  "plcCache (launchPollingForDataPoint dp s) = plcCache s"
  "readCount (launchPollingForDataPoint dp s) = readCount s"
  "pending (launchPollingForDataPoint dp s) = pending s @ [dp]"
  by (simp_all add: launchPollingForDataPoint_def launchPoll_def setInterval_def Let_def)

lemma launchPollingForDataPoint_intervals:
  "timers_inv s \<Longrightarrow>
   intervals (launchPollingForDataPoint dp s) =
     filter (\<lambda>(h, d). key d \<noteq> key dp) (intervals s) @ [(nextTimer s, dp)]"
  by (simp add: launchPollingForDataPoint_timers(2) [of dp s link_up]
      startPollingForDataPoint_intervals)

lemma timers_inv_launchPollingForDataPoint:
  assumes "timers_inv s"
  shows "timers_inv (launchPollingForDataPoint dp s)"
proof -
  have "timers_inv (launchPollingForDataPoint dp s) =
      timers_inv (startPollingForDataPoint link_up dp s)"
    by (rule timers_inv_fields_cong) (rule launchPollingForDataPoint_timers)+
  then show ?thesis
    using assms by (simp add: timers_inv_startPollingForDataPoint)
qed

lemma timers_inv_fold_launch:
  "timers_inv s \<Longrightarrow> timers_inv (fold launchPollingForDataPoint dps s)"
  by (induction dps arbitrary: s) (simp_all add: timers_inv_launchPollingForDataPoint)

lemma completePoll_fields [simp]:
  "isPollingActive (completePoll env i s) = isPollingActive s"
  "pollingTimers (completePoll env i s) = pollingTimers s"
  "intervals (completePoll env i s) = intervals s"
  "nextTimer (completePoll env i s) = nextTimer s"
  "dataPoints (completePoll env i s) = dataPoints s"
  by (simp_all add: completePoll_def)

lemma timerFires_fields [simp]:
  "isPollingActive (timerFires h s) = isPollingActive s"
  "pollingTimers (timerFires h s) = pollingTimers s"
  "intervals (timerFires h s) = intervals s"
  "nextTimer (timerFires h s) = nextTimer s"
  "dataPoints (timerFires h s) = dataPoints s"
  "plcCache (timerFires h s) = plcCache s"
  by (simp_all add: timerFires_def launchPoll_def split: option.splits)

lemma startPolling_begin_fields [simp]:
  "pollingTimers (snd (startPolling_begin env s)) = pollingTimers s"
  "intervals (snd (startPolling_begin env s)) = intervals s"
  "nextTimer (snd (startPolling_begin env s)) = nextTimer s"
  "dataPoints (snd (startPolling_begin env s)) = dataPoints s"
  "plcCache (snd (startPolling_begin env s)) = plcCache s"
  "pending (snd (startPolling_begin env s)) = pending s"
  by (simp_all add: startPolling_begin_def split: option.splits)

lemma registerDataPoint_begin_fields [simp]:
  "pollingTimers (snd (registerDataPoint_begin dto s)) = pollingTimers s"
  "intervals (snd (registerDataPoint_begin dto s)) = intervals s"
  "nextTimer (snd (registerDataPoint_begin dto s)) = nextTimer s"
  "plcCache (snd (registerDataPoint_begin dto s)) = plcCache s"
  "pending (snd (registerDataPoint_begin dto s)) = pending s"
  by (simp_all add: registerDataPoint_begin_def createDataPoint_def)

lemma timers_inv_step:
  assumes "timers_inv s"
  shows "timers_inv (step op s)"
proof (cases op)
  case (Register env dto)
  show ?thesis
  proof (cases "fst (createDataPoint
      \<lparr>key = dto_key dto, description = dto_description dto,
       addressType = dto_addressType dto, address = dto_address dto,
       length_dp = dto_length dto, bit_dp = dto_bit dto, type_dp = dto_type dto,
       pollingInterval = (case dto_pollingInterval dto of None \<Rightarrow> 1000 | Some p \<Rightarrow> p)\<rparr> s)")
    case (Inl e)
    then show ?thesis
      using assms Register
      by (simp add: registerDataPoint_def createDataPoint_def Let_def split: if_splits)
  next
    case (Inr saved)
    have "timers_inv (s\<lparr>dataPoints := dataPoints s @ [saved]\<rparr>)"
      using assms by (simp add: timers_inv_def)
    then show ?thesis
      using Inr Register
      by (simp add: registerDataPoint_def createDataPoint_def Let_def
          timers_inv_startPollingForDataPoint split: if_splits)
  qed
next
  case (Unregister k)
  have "timers_inv (snd (deleteDataPoint k (stopPollingForDataPoint k s))) =
      timers_inv (stopPollingForDataPoint k s)"
    by (rule timers_inv_fields_cong) (simp_all add: deleteDataPoint_def)
  then show ?thesis
    using assms Unregister
    by (simp add: unregisterDataPoint_def timers_inv_stopPollingForDataPoint)
next
  case (Start env)
  have "timers_inv (s\<lparr>isPollingActive := True, readCount := 0,
      pollingStartTime := Some (now env)\<rparr>)"
    using assms by (simp add: timers_inv_def)
  then show ?thesis
    using assms Start
    by (simp add: startPolling_def Let_def findAllDataPoints_def timers_inv_fold_start
        split: option.splits)
next
  case Stop
  then show ?thesis using assms by (simp add: timers_inv_stopPolling)
next
  case (Tick env h)
  then show ?thesis using assms by (simp add: timerTick_def split: option.splits)
next
  case (Write env k v)
  have "timers_inv (snd (writeData env k v s)) = timers_inv s"
    by (rule timers_inv_fields_cong)
      (simp_all add: writeData_cases split: option.splits sum.splits)
  then show ?thesis using assms Write by simp
next
  case (Fire h)
  have "timers_inv (timerFires h s) = timers_inv s"
    by (rule timers_inv_fields_cong) simp_all
  then show ?thesis using assms Fire by simp
next
  case (Complete env i)
  have "timers_inv (completePoll env i s) = timers_inv s"
    by (rule timers_inv_fields_cong) simp_all
  then show ?thesis using assms Complete by simp
next
  case (StartBegin env)
  have "timers_inv (snd (startPolling_begin env s)) = timers_inv s"
    by (rule timers_inv_fields_cong) simp_all
  then show ?thesis using assms StartBegin by simp
next
  case (StartResume dps)
  then show ?thesis
    using assms by (simp add: startPolling_resume_def timers_inv_fold_launch)
next
  case (RegisterBegin dto)
  have "timers_inv (snd (registerDataPoint_begin dto s)) = timers_inv s"
    by (rule timers_inv_fields_cong) simp_all
  then show ?thesis using assms RegisterBegin by simp
next
  case (RegisterResume saved)
  then show ?thesis
    using assms
    by (simp add: registerDataPoint_resume_def timers_inv_launchPollingForDataPoint)
qed

lemma timers_inv_fold_step: "timers_inv s \<Longrightarrow> timers_inv (fold step ops s)"
  by (induction ops arbitrary: s) (simp_all add: timers_inv_step)

lemma timers_inv_run: "timers_inv (run ops initial_service)"
  by (simp add: run_def timers_inv_fold_step timers_inv_initial)

lemma timers_inv_distinct_keys:
  assumes "timers_inv s"
  shows "distinct (map (key \<circ> snd) (intervals s))"
proof -
  have d: "distinct (intervals s)"
    using assms by (simp add: timers_inv_def distinct_map)
  have "inj_on (key \<circ> snd) (set (intervals s))"
  proof (rule inj_onI)
    fix x y
    assume x: "x \<in> set (intervals s)" and y: "y \<in> set (intervals s)"
      and e: "(key \<circ> snd) x = (key \<circ> snd) y"
    obtain h1 d1 h2 d2 where xy: "x = (h1, d1)" "y = (h2, d2)" by (cases x, cases y)
    have "(key d1, h1) \<in> set (pollingTimers s)" "(key d2, h2) \<in> set (pollingTimers s)"
      using assms x y xy by (auto simp add: timers_inv_def)
    then have "h1 = h2"
      using same_handle_same_key [of "pollingTimers s" "key d1" h1 "key d2" h2] assms e xy
      by (simp add: timers_inv_def)
    moreover have "inj_on fst (set (intervals s))"
      using assms by (simp add: timers_inv_def distinct_map)
    ultimately show "x = y"
      using x y xy inj_onD [of fst "set (intervals s)" x y] by simp
  qed
  then show ?thesis using d by (simp add: distinct_map)
qed

section \<open>At most one live timer for a key\<close>

text \<open>
  Claim C9. In every state the service reaches by registering, unregistering, starting,
  stopping, writing and timer ticks, the live interval timers have pairwise different keys.
  This rests on the timer invariant, which holds at the start and which every operation
  preserves from any state that has it, not only from those of a run: the invariant gives
  a live timer to a key at most once, each such timer being the one the \<open>Map\<close> records
  under the key. Activating polling for a data point retires the key's timer before it
  installs the new one: afterwards the key has exactly the new timer, and the timers of the
  other keys are as before.
\<close>

theorem one_timer_per_key:
  "distinct (map (key \<circ> snd) (intervals (run ops initial_service))) \<and>
   timers_inv (run ops initial_service) \<and>
   (timers_inv s \<longrightarrow>
      distinct (map (key \<circ> snd) (intervals s)) \<and>
      (\<forall>(h, d) \<in> set (intervals s). map_of (pollingTimers s) (key d) = Some h) \<and>
      timers_inv (step op s) \<and>
      timers_inv (stopPollingForDataPoint k s) \<and>
      (let s' = startPollingForDataPoint env dp s in
         timers_inv s' \<and>
         filter (\<lambda>(h, d). key d = key dp) (intervals s') = [(nextTimer s, dp)] \<and>
         filter (\<lambda>(h, d). key d \<noteq> key dp) (intervals s') =
           filter (\<lambda>(h, d). key d \<noteq> key dp) (intervals s) \<and>
         map_of (pollingTimers s') (key dp) = Some (nextTimer s)))"
proof -
  have run: "timers_inv (run ops initial_service)"
    by (rule timers_inv_run)
  have step: "timers_inv s \<longrightarrow>
      distinct (map (key \<circ> snd) (intervals s)) \<and>
      (\<forall>(h, d) \<in> set (intervals s). map_of (pollingTimers s) (key d) = Some h) \<and>
      timers_inv (step op s) \<and>
      timers_inv (stopPollingForDataPoint k s) \<and>
      (let s' = startPollingForDataPoint env dp s in
         timers_inv s' \<and>
         filter (\<lambda>(h, d). key d = key dp) (intervals s') = [(nextTimer s, dp)] \<and>
         filter (\<lambda>(h, d). key d \<noteq> key dp) (intervals s') =
           filter (\<lambda>(h, d). key d \<noteq> key dp) (intervals s) \<and>
         map_of (pollingTimers s') (key dp) = Some (nextTimer s))"
  proof
    assume inv: "timers_inv s"
    define s' where "s' = startPollingForDataPoint env dp s"
    have inv': "timers_inv s'"
      by (simp add: s'_def inv timers_inv_startPollingForDataPoint)
    have iv: "intervals s' =
        filter (\<lambda>(h, d). key d \<noteq> key dp) (intervals s) @ [(nextTimer s, dp)]"
      by (simp add: s'_def inv startPollingForDataPoint_intervals)
    have a: "distinct (map (key \<circ> snd) (intervals s))"
      using inv by (rule timers_inv_distinct_keys)
    have b: "\<forall>(h, d) \<in> set (intervals s). map_of (pollingTimers s) (key d) = Some h"
      using inv by (auto simp add: timers_inv_def)
    have c: "filter (\<lambda>(h, d). key d = key dp) (intervals s') = [(nextTimer s, dp)]"
      by (simp add: iv filter_empty_conv split_def)
    have d: "filter (\<lambda>(h, d). key d \<noteq> key dp) (intervals s') =
        filter (\<lambda>(h, d). key d \<noteq> key dp) (intervals s)"
      by (simp add: iv split_def)
    have "map_of (AList.delete (key dp) (pollingTimers s)) (key dp) = None"
      by (simp add: delete_conv')
    then have e: "map_of (pollingTimers s') (key dp) = Some (nextTimer s)"
      by (simp add: s'_def startPollingForDataPoint_pollingTimers map_add_def)
    show "distinct (map (key \<circ> snd) (intervals s)) \<and>
      (\<forall>(h, d) \<in> set (intervals s). map_of (pollingTimers s) (key d) = Some h) \<and>
      timers_inv (step op s) \<and>
      timers_inv (stopPollingForDataPoint k s) \<and>
      (let s' = startPollingForDataPoint env dp s in
         timers_inv s' \<and>
         filter (\<lambda>(h, d). key d = key dp) (intervals s') = [(nextTimer s, dp)] \<and>
         filter (\<lambda>(h, d). key d \<noteq> key dp) (intervals s') =
           filter (\<lambda>(h, d). key d \<noteq> key dp) (intervals s) \<and>
         map_of (pollingTimers s') (key dp) = Some (nextTimer s))"
      using a b c d e inv' timers_inv_step [OF inv, of op]
        timers_inv_stopPollingForDataPoint [OF inv, of k]
      by (simp add: s'_def Let_def)
  qed
  show ?thesis
    using run step timers_inv_distinct_keys [OF run] by blast
qed

theorem one_timer_per_key_witness:
  "intervals running_service = [(0, temp_point)] \<and>
   filter (\<lambda>(h, d). key d = ''temp'')
     (intervals (startPollingForDataPoint link_down temp_point running_service)) =
       [(1, temp_point)] \<and>
   filter (\<lambda>(h, d). key d \<noteq> ''temp'')
     (intervals (startPollingForDataPoint link_down temp_point running_service)) = [] \<and>
   map_of (pollingTimers (startPollingForDataPoint link_down temp_point running_service)) ''temp'' =
     Some 1"
proof -
  note t = one_timer_per_key [of "[Register link_up temp_dto, Start link_up]" running_service
      Stop "''temp''" link_down temp_point, folded running_service_def]
  have "timers_inv running_service"
    using t by blast
  then show ?thesis
    using t by (simp add: Let_def running_service_fields)
qed

section \<open>Stopping\<close>






section \<open>Unregistering\<close>

lemma pollDataPoint_other_key:
  "key dp \<noteq> k \<Longrightarrow> plcCache (snd (pollDataPoint env dp s)) k = plcCache s k"
  by (simp add: pollDataPoint_eq split: sum.splits)

lemma startPollingForDataPoint_other_key:
  "key dp \<noteq> k \<Longrightarrow> plcCache (startPollingForDataPoint env dp s) k = plcCache s k"
  by (simp add: startPollingForDataPoint_def setInterval_def Let_def pollDataPoint_other_key)

lemma key_retired_startPollingForDataPoint:
  "timers_inv s \<Longrightarrow> key_retired k s \<Longrightarrow> key dp \<noteq> k \<Longrightarrow>
   key_retired k (startPollingForDataPoint env dp s)"
  by (auto simp add: key_retired_def startPollingForDataPoint_intervals)

lemma key_retired_fold_start:
  "timers_inv s \<Longrightarrow> key_retired k s \<Longrightarrow> \<forall>d \<in> set dps. key d \<noteq> k \<Longrightarrow>
   key_retired k (fold (startPollingForDataPoint env) dps s) \<and>
   plcCache (fold (startPollingForDataPoint env) dps s) k = plcCache s k"
proof (induction dps arbitrary: s)
  case Nil
  then show ?case by simp
next
  case (Cons d dps)
  have "timers_inv (startPollingForDataPoint env d s)"
    using Cons.prems(1) by (rule timers_inv_startPollingForDataPoint)
  moreover have "key_retired k (startPollingForDataPoint env d s)"
    using Cons.prems by (simp add: key_retired_startPollingForDataPoint)
  ultimately show ?case
    using Cons.IH [of "startPollingForDataPoint env d s"] Cons.prems(3)
    by (simp add: startPollingForDataPoint_other_key)
qed

lemma key_retired_fields_cong:
  "intervals t = intervals s \<Longrightarrow> dataPoints t = dataPoints s \<Longrightarrow>
   key_retired k t = key_retired k s"
  by (simp add: key_retired_def)

lemma findDataPoint_retired: "key_retired k s \<Longrightarrow> findDataPoint k s = None"
  by (simp add: key_retired_def findDataPoint_def find_None_iff)

lemma fold_launchPollingForDataPoint_fields [simp]:
  "dataPoints (fold launchPollingForDataPoint dps s) = dataPoints s"
  "plcCache (fold launchPollingForDataPoint dps s) = plcCache s"
  "pending (fold launchPollingForDataPoint dps s) = pending s @ dps"
  by (induction dps arbitrary: s) simp_all

lemma key_retired_launchPollingForDataPoint:
  "timers_inv s \<Longrightarrow> key_retired k s \<Longrightarrow> key dp \<noteq> k \<Longrightarrow>
   key_retired k (launchPollingForDataPoint dp s)"
  by (auto simp add: key_retired_def launchPollingForDataPoint_intervals)

lemma key_retired_fold_launch:
  "timers_inv s \<Longrightarrow> key_retired k s \<Longrightarrow> \<forall>d \<in> set dps. key d \<noteq> k \<Longrightarrow>
   key_retired k (fold launchPollingForDataPoint dps s)"
proof (induction dps arbitrary: s)
  case Nil
  then show ?case by simp
next
  case (Cons d dps)
  have "timers_inv (launchPollingForDataPoint d s)"
    using Cons.prems(1) by (rule timers_inv_launchPollingForDataPoint)
  moreover have "key_retired k (launchPollingForDataPoint d s)"
    using Cons.prems by (simp add: key_retired_launchPollingForDataPoint)
  ultimately show ?case
    using Cons.IH [of "launchPollingForDataPoint d s"] Cons.prems(3) by simp
qed

lemma key_retired_step:
  assumes inv: "timers_inv s" and ret: "key_retired k s" and op: "\<not> activates k op"
  shows "key_retired k (step op s)"
proof (cases op)
  case (Register env dto)
  let ?dp = "\<lparr>key = dto_key dto, description = dto_description dto,
       addressType = dto_addressType dto, address = dto_address dto,
       length_dp = dto_length dto, bit_dp = dto_bit dto, type_dp = dto_type dto,
       pollingInterval = (case dto_pollingInterval dto of None \<Rightarrow> 1000 | Some p \<Rightarrow> p)\<rparr>"
  let ?s1 = "s\<lparr>dataPoints := dataPoints s @ [?dp]\<rparr>"
  have ne: "key ?dp \<noteq> k" using op Register by simp
  have inv1: "timers_inv ?s1" using inv by (simp add: timers_inv_def)
  have ret1: "key_retired k ?s1" using ret ne by (simp add: key_retired_def)
  have "key_retired k (startPollingForDataPoint env ?dp ?s1)"
    using key_retired_startPollingForDataPoint [OF inv1 ret1 ne] by simp
  then show ?thesis
    using Register ret ret1
    by (simp add: registerDataPoint_def createDataPoint_def Let_def)
next
  case (Unregister k')
  have "key_retired k (stopPollingForDataPoint k' s)"
    using ret by (auto simp add: key_retired_def stopPollingForDataPoint_intervals [OF inv])
  then show ?thesis
    using Unregister
    by (auto simp add: unregisterDataPoint_def deleteDataPoint_def key_retired_def)
next
  case (Start env)
  let ?s1 = "s\<lparr>isPollingActive := True, readCount := 0, pollingStartTime := Some (now env)\<rparr>"
  have inv1: "timers_inv ?s1" using inv by (simp add: timers_inv_def)
  have ret1: "key_retired k ?s1" using ret by (simp add: key_retired_def)
  have dps: "\<forall>d \<in> set (dataPoints ?s1). key d \<noteq> k" using ret by (simp add: key_retired_def)
  show ?thesis
    using Start ret key_retired_fold_start [OF inv1 ret1 dps, of env]
    by (simp add: startPolling_def Let_def findAllDataPoints_def split: option.splits)
next
  case Stop
  show ?thesis
  proof (cases "isPollingActive s")
    case True
    then show ?thesis
      using Stop ret stopPolling_intervals [OF inv True]
      by (simp add: key_retired_def stopPolling_fields)
  next
    case False
    then show ?thesis using Stop ret by (simp add: stopPolling_def)
  qed
next
  case (Tick env h)
  then show ?thesis
    using ret by (simp add: timerTick_def key_retired_def split: option.splits)
next
  case (Write env k' v)
  have "key_retired k (snd (writeData env k' v s)) = key_retired k s"
    by (rule key_retired_fields_cong)
      (simp_all add: writeData_cases split: option.splits sum.splits)
  then show ?thesis using Write ret by simp
next
  case (Fire h)
  have "key_retired k (timerFires h s) = key_retired k s"
    by (rule key_retired_fields_cong) simp_all
  then show ?thesis using Fire ret by simp
next
  case (Complete env i)
  have "key_retired k (completePoll env i s) = key_retired k s"
    by (rule key_retired_fields_cong) simp_all
  then show ?thesis using Complete ret by simp
next
  case (StartBegin env)
  have "key_retired k (snd (startPolling_begin env s)) = key_retired k s"
    by (rule key_retired_fields_cong) simp_all
  then show ?thesis using StartBegin ret by simp
next
  case (StartResume dps)
  have "\<forall>d \<in> set dps. key d \<noteq> k"
    using op StartResume by (simp add: list_ex_iff)
  then show ?thesis
    using StartResume key_retired_fold_launch [OF inv ret]
    by (simp add: startPolling_resume_def)
next
  case (RegisterBegin dto)
  then show ?thesis
    using ret op
    by (simp add: registerDataPoint_begin_def createDataPoint_def key_retired_def)
next
  case (RegisterResume saved)
  then show ?thesis
    using ret op key_retired_launchPollingForDataPoint [OF inv ret, of saved]
    by (simp add: registerDataPoint_resume_def)
qed

lemma registerDataPoint_pending [simp]:
  "pending (snd (registerDataPoint env dto s)) = pending s"
  by (simp add: registerDataPoint_def createDataPoint_def Let_def)

lemma key_quiet_step:
  assumes inv: "timers_inv s" and ret: "key_retired k s" and quiet: "\<not> in_flight k s"
    and op: "\<not> activates k op" and w: "\<not> writes_to k op"
  shows "\<not> in_flight k (step op s) \<and> plcCache (step op s) k = plcCache s k"
proof (cases op)
  case (Register env dto)
  let ?dp = "\<lparr>key = dto_key dto, description = dto_description dto,
       addressType = dto_addressType dto, address = dto_address dto,
       length_dp = dto_length dto, bit_dp = dto_bit dto, type_dp = dto_type dto,
       pollingInterval = (case dto_pollingInterval dto of None \<Rightarrow> 1000 | Some p \<Rightarrow> p)\<rparr>"
  have ne: "key ?dp \<noteq> k" using op Register by simp
  have "plcCache (snd (registerDataPoint env dto s)) k = plcCache s k"
    using startPollingForDataPoint_other_key [OF ne]
    by (simp add: registerDataPoint_def createDataPoint_def Let_def)
  then show ?thesis using Register quiet by (simp add: in_flight_def)
next
  case (Unregister k')
  then show ?thesis
    using quiet by (simp add: in_flight_def unregisterDataPoint_def deleteDataPoint_def)
next
  case (Start env)
  let ?s1 = "s\<lparr>isPollingActive := True, readCount := 0, pollingStartTime := Some (now env)\<rparr>"
  have inv1: "timers_inv ?s1" using inv by (simp add: timers_inv_def)
  have ret1: "key_retired k ?s1" using ret by (simp add: key_retired_def)
  have dps: "\<forall>d \<in> set (dataPoints ?s1). key d \<noteq> k" using ret by (simp add: key_retired_def)
  show ?thesis
    using Start quiet key_retired_fold_start [OF inv1 ret1 dps, of env]
    by (simp add: in_flight_def startPolling_def Let_def findAllDataPoints_def
        split: option.splits)
next
  case Stop
  then show ?thesis using quiet by (simp add: in_flight_def stopPolling_fields)
next
  case (Tick env h)
  show ?thesis
  proof (cases "map_of (intervals s) h")
    case None
    then show ?thesis using Tick quiet by (simp add: timerTick_def)
  next
    case (Some dp)
    then have "(h, dp) \<in> set (intervals s)" by (rule map_of_SomeD)
    then have "key dp \<noteq> k" using ret by (auto simp add: key_retired_def)
    then show ?thesis
      using Tick Some quiet
      by (simp add: timerTick_def pollDataPoint_other_key in_flight_def)
  qed
next
  case (Write env k' v)
  have ne: "k' \<noteq> k" using w Write by simp
  have "pending (snd (writeData env k' v s)) = pending s"
    by (simp add: writeData_cases split: option.splits sum.splits)
  moreover have "plcCache (snd (writeData env k' v s)) k = plcCache s k"
    using ne by (simp add: writeData_cases split: option.splits sum.splits)
  ultimately show ?thesis using Write quiet by (simp add: in_flight_def)
next
  case (Fire h)
  show ?thesis
  proof (cases "map_of (intervals s) h")
    case None
    then show ?thesis using Fire quiet by (simp add: timerFires_def)
  next
    case (Some dp)
    then have "(h, dp) \<in> set (intervals s)" by (rule map_of_SomeD)
    then have "key dp \<noteq> k" using ret by (auto simp add: key_retired_def)
    then show ?thesis
      using Fire Some quiet
      by (simp add: timerFires_def launchPoll_def in_flight_def list_ex_iff)
  qed
next
  case (Complete env i)
  show ?thesis
  proof (cases "i < length (pending s)")
    case True
    then have "pending s ! i \<in> set (pending s)" by simp
    then have ne: "key (pending s ! i) \<noteq> k"
      using quiet by (auto simp add: in_flight_def list_ex_iff)
    have "\<forall>d \<in> set (take i (pending s) @ drop (Suc i) (pending s)). key d \<noteq> k"
      using quiet by (auto simp add: in_flight_def list_ex_iff dest: in_set_takeD in_set_dropD)
    then show ?thesis
      using Complete True ne
      by (simp add: completePoll_def pollDataPoint_other_key in_flight_def list_ex_iff)
  next
    case False
    then show ?thesis using Complete quiet by (simp add: completePoll_def)
  qed
next
  case (StartBegin env)
  then show ?thesis using quiet by (simp add: in_flight_def)
next
  case (StartResume dps)
  have "\<forall>d \<in> set dps. key d \<noteq> k"
    using op StartResume by (simp add: list_ex_iff)
  then show ?thesis
    using StartResume quiet
    by (auto simp add: startPolling_resume_def in_flight_def list_ex_iff)
next
  case (RegisterBegin dto)
  then show ?thesis using quiet by (simp add: in_flight_def)
next
  case (RegisterResume saved)
  then show ?thesis
    using quiet op by (simp add: registerDataPoint_resume_def in_flight_def list_ex_iff)
qed

lemma key_retired_fold_step:
  "timers_inv s \<Longrightarrow> key_retired k s \<Longrightarrow> \<not> list_ex (activates k) ops \<Longrightarrow>
   timers_inv (fold step ops s) \<and> key_retired k (fold step ops s)"
proof (induction ops arbitrary: s)
  case Nil
  then show ?case by simp
next
  case (Cons op ops)
  have o: "\<not> activates k op" and rest: "\<not> list_ex (activates k) ops"
    using Cons.prems(3) by simp_all
  show ?case
    using Cons.IH [OF timers_inv_step [OF Cons.prems(1)]
        key_retired_step [OF Cons.prems(1,2) o] rest]
    by simp
qed

lemma key_quiet_fold_step:
  "timers_inv s \<Longrightarrow> key_retired k s \<Longrightarrow> \<not> in_flight k s \<Longrightarrow>
   \<not> list_ex (activates k) ops \<Longrightarrow> \<not> list_ex (writes_to k) ops \<Longrightarrow>
   \<not> in_flight k (fold step ops s) \<and> plcCache (fold step ops s) k = plcCache s k"
proof (induction ops arbitrary: s)
  case Nil
  then show ?case by simp
next
  case (Cons op ops)
  have o: "\<not> activates k op" and rest: "\<not> list_ex (activates k) ops"
    using Cons.prems(4) by simp_all
  have w: "\<not> writes_to k op" and wrest: "\<not> list_ex (writes_to k) ops"
    using Cons.prems(5) by simp_all
  have q: "\<not> in_flight k (step op s)" and c: "plcCache (step op s) k = plcCache s k"
    using key_quiet_step [OF Cons.prems(1,2,3) o w] by simp_all
  show ?case
    using Cons.IH [OF timers_inv_step [OF Cons.prems(1)]
        key_retired_step [OF Cons.prems(1,2) o] q rest wrest] c
    by simp
qed

lemma unregisterDataPoint_eq:
  "unregisterDataPoint k s =
     (Inr (), stopPollingForDataPoint k s
        \<lparr>dataPoints := filter (\<lambda>d. key d \<noteq> k) (dataPoints s)\<rparr>)"
  by (simp add: unregisterDataPoint_def deleteDataPoint_def)

lemma stale_service_fields:
  "\<not> isPollingActive stale_service" "intervals stale_service = [(0, temp_point)]"
  "pollingTimers stale_service = [(''temp'', 0)]" "pending stale_service = [temp_point]"
  "dataPoints stale_service = [temp_point]" "findCache ''temp'' stale_service = None"
  by code_simp+

lemma polling_service_fields:
  "isPollingActive polling_service" "intervals polling_service = [(0, temp_point)]"
  "pending polling_service = [temp_point]"
  by code_simp+

text \<open>
  Claim C7, as stated, fails: with the scheduler running and the poll of a tick of \<open>temp\<close>
  in flight, \<open>unregisterDataPoint\<close> clears the timer and leaves the cache row, and the poll,
  answered after that, writes the row again.
\<close>

theorem unregisterDataPoint_row_counterexample:
  "isPollingActive polling_service \<and>
   pending polling_service = [temp_point] \<and>
   intervals (snd (unregisterDataPoint ''temp'' polling_service)) = [] \<and>
   findDataPoint ''temp'' (snd (unregisterDataPoint ''temp'' polling_service)) = None \<and>
   findCache ''temp'' (snd (unregisterDataPoint ''temp'' polling_service)) =
     Some \<lparr>c_key = ''temp'', c_value = VNumbers [7, 7], c_timestamp = 5000, c_error = None\<rparr> \<and>
   findCache ''temp''
     (run [Complete link_down 0] (snd (unregisterDataPoint ''temp'' polling_service))) =
     Some \<lparr>c_key = ''temp'', c_value = VNumbers [], c_timestamp = 6000,
           c_error = Some ''timeout''\<rparr>"
  by code_simp

text \<open>
  Claim C7, amended. From any state that has the timer invariant, whether the scheduler
  runs or not, \<open>unregisterDataPoint\<close> returns normally with the key's timer cleared and
  struck from the \<open>Map\<close>, the timers of the other keys live as before, the definition
  gone from the registry, the cache row of the key as it was and the polls in flight left
  in flight. From then on, through any operations none of which registers the key or
  activates polling for it, no timer of the key is live and the key has no definition.
  From any such moment at which no poll of the key is in flight, further operations of
  that kind, writes to the key apart, put no poll of the key in flight and leave its cache
  row as it is.
\<close>

theorem unregisterDataPoint_retires_timer:
  "timers_inv s \<longrightarrow>
     (let s' = snd (unregisterDataPoint k s) in
        fst (unregisterDataPoint k s) = Inr () \<and>
        intervals s' = filter (\<lambda>(h, d). key d \<noteq> k) (intervals s) \<and>
        map_of (pollingTimers s') k = None \<and>
        findDataPoint k s' = None \<and>
        findCache k s' = findCache k s \<and>
        pending s' = pending s \<and>
        isPollingActive s' = isPollingActive s \<and>
        (\<not> list_ex (activates k) ops \<longrightarrow>
           (let t = run ops s' in
              (\<forall>(h, d) \<in> set (intervals t). key d \<noteq> k) \<and>
              findDataPoint k t = None \<and>
              (\<not> in_flight k t \<longrightarrow>
               \<not> list_ex (activates k) ops2 \<longrightarrow> \<not> list_ex (writes_to k) ops2 \<longrightarrow>
                 \<not> in_flight k (run ops2 t) \<and>
                 findCache k (run ops2 t) = findCache k t))))"
proof
  assume inv: "timers_inv s"
  define s' where "s' = snd (unregisterDataPoint k s)"
  have inv': "timers_inv s'"
    using timers_inv_step [OF inv, of "Unregister k"] by (simp add: s'_def)
  have iv: "intervals s' = filter (\<lambda>(h, d). key d \<noteq> k) (intervals s)"
    by (simp add: s'_def unregisterDataPoint_eq stopPollingForDataPoint_intervals [OF inv])
  have pt: "map_of (pollingTimers s') k = None"
    by (simp add: s'_def unregisterDataPoint_eq stopPollingForDataPoint_pollingTimers
        delete_conv')
  have ret: "key_retired k s'"
    by (auto simp add: key_retired_def iv) (simp add: s'_def unregisterDataPoint_eq)
  have ok: "fst (unregisterDataPoint k s) = Inr ()"
    by (simp add: unregisterDataPoint_eq)
  have same: "plcCache s' = plcCache s" "pending s' = pending s"
    "isPollingActive s' = isPollingActive s"
    by (simp_all add: s'_def unregisterDataPoint_eq)
  have later: "\<not> list_ex (activates k) ops \<longrightarrow>
      (let t = run ops s' in
         (\<forall>(h, d) \<in> set (intervals t). key d \<noteq> k) \<and>
         findDataPoint k t = None \<and>
         (\<not> in_flight k t \<longrightarrow>
          \<not> list_ex (activates k) ops2 \<longrightarrow> \<not> list_ex (writes_to k) ops2 \<longrightarrow>
            \<not> in_flight k (run ops2 t) \<and>
            findCache k (run ops2 t) = findCache k t))"
  proof
    assume a: "\<not> list_ex (activates k) ops"
    define t where "t = run ops s'"
    have t: "timers_inv t" "key_retired k t"
      using key_retired_fold_step [OF inv' ret a] by (simp_all add: t_def run_def)
    have timers: "\<forall>(h, d) \<in> set (intervals t). key d \<noteq> k"
      using t(2) by (simp add: key_retired_def)
    have frozen: "\<not> in_flight k t \<longrightarrow>
        \<not> list_ex (activates k) ops2 \<longrightarrow> \<not> list_ex (writes_to k) ops2 \<longrightarrow>
          \<not> in_flight k (run ops2 t) \<and> findCache k (run ops2 t) = findCache k t"
      using key_quiet_fold_step [OF t, of ops2] by (simp add: findCache_def run_def)
    show "let t = run ops s' in
         (\<forall>(h, d) \<in> set (intervals t). key d \<noteq> k) \<and>
         findDataPoint k t = None \<and>
         (\<not> in_flight k t \<longrightarrow>
          \<not> list_ex (activates k) ops2 \<longrightarrow> \<not> list_ex (writes_to k) ops2 \<longrightarrow>
            \<not> in_flight k (run ops2 t) \<and>
            findCache k (run ops2 t) = findCache k t)"
      using timers findDataPoint_retired [OF t(2)] frozen
      by (simp add: t_def [symmetric] Let_def)
  qed
  show "let s' = snd (unregisterDataPoint k s) in
        fst (unregisterDataPoint k s) = Inr () \<and>
        intervals s' = filter (\<lambda>(h, d). key d \<noteq> k) (intervals s) \<and>
        map_of (pollingTimers s') k = None \<and>
        findDataPoint k s' = None \<and>
        findCache k s' = findCache k s \<and>
        pending s' = pending s \<and>
        isPollingActive s' = isPollingActive s \<and>
        (\<not> list_ex (activates k) ops \<longrightarrow>
           (let t = run ops s' in
              (\<forall>(h, d) \<in> set (intervals t). key d \<noteq> k) \<and>
              findDataPoint k t = None \<and>
              (\<not> in_flight k t \<longrightarrow>
               \<not> list_ex (activates k) ops2 \<longrightarrow> \<not> list_ex (writes_to k) ops2 \<longrightarrow>
                 \<not> in_flight k (run ops2 t) \<and>
                 findCache k (run ops2 t) = findCache k t)))"
    using ok iv pt findDataPoint_retired [OF ret] same later
    by (simp add: s'_def [symmetric] Let_def findCache_def)
qed

theorem unregisterDataPoint_retires_timer_witness:
  "timers_inv stale_service \<and> \<not> isPollingActive stale_service \<and>
   intervals stale_service = [(0, temp_point)] \<and>
   intervals (snd (unregisterDataPoint ''temp'' stale_service)) = [] \<and>
   findDataPoint ''temp'' (snd (unregisterDataPoint ''temp'' stale_service)) = None \<and>
   pending (snd (unregisterDataPoint ''temp'' stale_service)) = [temp_point] \<and>
   \<not> in_flight ''temp''
       (run [Complete link_up 0] (snd (unregisterDataPoint ''temp'' stale_service))) \<and>
   findCache ''temp''
     (run [Fire 0, Start link_down, Tick link_down 0, Stop]
        (run [Complete link_up 0] (snd (unregisterDataPoint ''temp'' stale_service)))) =
     Some \<lparr>c_key = ''temp'', c_value = VNumbers [7, 7], c_timestamp = 5000, c_error = None\<rparr> \<and>
   timers_inv running_service \<and> isPollingActive running_service \<and>
   intervals running_service = [(0, temp_point)] \<and>
   intervals (snd (unregisterDataPoint ''temp'' running_service)) = []"
proof -
  have inv_stale: "timers_inv stale_service"
    unfolding stale_service_def by (rule timers_inv_run)
  have inv_running: "timers_inv running_service"
    unfolding running_service_def by (rule timers_inv_run)
  have quiet: "\<not> in_flight ''temp''
      (run [Complete link_up 0] (snd (unregisterDataPoint ''temp'' stale_service)))"
    by code_simp
  have row: "findCache ''temp''
      (run [Complete link_up 0] (snd (unregisterDataPoint ''temp'' stale_service))) =
      Some \<lparr>c_key = ''temp'', c_value = VNumbers [7, 7], c_timestamp = 5000, c_error = None\<rparr>"
    by code_simp
  note stale = unregisterDataPoint_retires_timer [of stale_service "''temp''"
      "[Complete link_up 0]" "[Fire 0, Start link_down, Tick link_down 0, Stop]"]
  note running = unregisterDataPoint_retires_timer [of running_service "''temp''" "[]" "[]"]
  have frozen: "findCache ''temp''
     (run [Fire 0, Start link_down, Tick link_down 0, Stop]
        (run [Complete link_up 0] (snd (unregisterDataPoint ''temp'' stale_service)))) =
     findCache ''temp''
       (run [Complete link_up 0] (snd (unregisterDataPoint ''temp'' stale_service)))"
    using stale inv_stale quiet by (simp add: Let_def)
  have stale_now: "intervals (snd (unregisterDataPoint ''temp'' stale_service)) = []"
    "findDataPoint ''temp'' (snd (unregisterDataPoint ''temp'' stale_service)) = None"
    "pending (snd (unregisterDataPoint ''temp'' stale_service)) = [temp_point]"
    using stale inv_stale by (simp_all add: Let_def stale_service_fields)
  have running_now: "intervals (snd (unregisterDataPoint ''temp'' running_service)) = []"
    using running inv_running by (simp add: Let_def running_service_fields)
  show ?thesis
    using inv_stale inv_running quiet frozen row stale_now running_now
    by (simp add: stale_service_fields running_service_fields)
qed

section \<open>The int32 codec round trip\<close>

lemma low_word_disjoint:
  "push_bit 16 (hi :: int) AND take_bit 16 lo = 0"
  by (rule bit_eqI) (simp add: bit_and_iff bit_push_bit_iff bit_take_bit_iff)

lemma compose_words:
  assumes "0 \<le> lo" and "lo < 65536"
  shows "js_or (js_shl hi 16) lo = sint (word_of_int (hi * 65536 + lo) :: 32 word)"
proof -
  have lo: "take_bit 16 lo = lo"
    using assms by (simp add: take_bit_int_eq_self)
  have "push_bit 16 hi OR lo = push_bit 16 hi + lo"
    using low_word_disjoint [of hi lo] lo by (simp add: disjunctive_add_eq_or)
  then have "push_bit 16 hi OR lo = hi * 65536 + lo"
    by (simp add: push_bit_eq_mult)
  moreover have "(word_of_int (sint (push_bit 16 (word_of_int hi :: 32 word))) :: 32 word) =
      word_of_int (push_bit 16 hi)"
    by (simp add: of_int_push_bit)
  ultimately show ?thesis
    by (simp add: js_or_def js_shl_def of_int_or_eq [symmetric])
qed

lemma sint_in_range:
  assumes "- 2147483648 \<le> v" and "v \<le> 2147483647"
  shows "sint (word_of_int v :: 32 word) = v"
  using assms by (simp add: sint_sbintrunc' signed_take_bit_int_eq_self)

lemma wrap_raw: "(word_of_int (v + 4294967296) :: 32 word) = word_of_int v"
  by simp

lemma sint_raw:
  assumes "- 2147483648 \<le> v" and "v \<le> 2147483647"
  shows "sint (word_of_int (if v < 0 then v + 4294967296 else v) :: 32 word) = v"
  using sint_in_range [OF assms] by (cases "v < 0") (simp_all only: wrap_raw if_True if_False)

lemma decode_words:
  "renderTagValue_int32 (int (length pre)) (Some (pre @ [lo, hi] @ post)) =
     (let val = js_or (js_shl hi 16) lo
      in RNumber (if val > 2147483647 then val - 4294967296 else val))"
proof -
  have "nat (int (length pre) + 1) = Suc (length pre)"
    by simp
  then have "(pre @ lo # hi # post) ! nat (int (length pre) + 1) = hi"
    by (simp add: nth_append)
  then show ?thesis
    by (simp add: renderTagValue_int32_def safe_def nth_append)
qed

text \<open>
  Claim C8. For every \<open>v\<close> of the signed 32-bit range the encoder gives two 16-bit words,
  low word first, and rendering them as an int32 tag, at whatever offset they lie in the
  block of the data set, gives \<open>v\<close> again. The words \<open>[0xFFFF, 0xFFFF]\<close> render as \<open>-1\<close>,
  the words \<open>[0, 0]\<close> as \<open>0\<close>.
\<close>

theorem int32_roundtrip:
  "(- 2147483648 \<le> v \<and> v \<le> 2147483647 \<longrightarrow>
      renderTagValue_int32 (int (length pre)) (Some (pre @ encode_int32 v @ post)) =
        RNumber v \<and>
      length (encode_int32 v) = 2 \<and>
      (\<forall>w \<in> set (encode_int32 v). 0 \<le> w \<and> w \<le> 65535)) \<and>
   renderTagValue_int32 0 (Some [65535, 65535]) = RNumber (- 1) \<and>
   renderTagValue_int32 0 (Some [0, 0]) = RNumber 0"
proof -
  have rt: "renderTagValue_int32 (int (length pre)) (Some (pre @ encode_int32 v @ post)) =
      RNumber v"
    if r: "- 2147483648 \<le> v" "v \<le> 2147483647"
  proof -
    define raw where "raw = (if v < 0 then v + 4294967296 else v)"
    have "js_or (js_shl (raw div 65536) 16) (raw mod 65536) =
        sint (word_of_int (raw div 65536 * 65536 + raw mod 65536) :: 32 word)"
      by (rule compose_words) simp_all
    also have "\<dots> = sint (word_of_int raw :: 32 word)"
      by simp
    also have "\<dots> = v"
      unfolding raw_def using r by (rule sint_raw)
    finally have val: "js_or (js_shl (raw div 65536) 16) (raw mod 65536) = v" .
    have enc: "encode_int32 v = [raw mod 65536, raw div 65536]"
      by (simp add: encode_int32_def raw_def Let_def)
    show ?thesis
      unfolding enc
      using decode_words [of pre "raw mod 65536" "raw div 65536" post] val r
      by (simp add: Let_def)
  qed
  have words: "\<forall>w \<in> set (encode_int32 v). 0 \<le> w \<and> w \<le> 65535"
    if r: "- 2147483648 \<le> v" "v \<le> 2147483647"
  proof -
    define raw where "raw = (if v < 0 then v + 4294967296 else v)"
    have "0 \<le> raw" "raw < 4294967296"
      using r by (simp_all add: raw_def)
    then have "0 \<le> raw div 65536" "raw div 65536 \<le> 65535"
      by simp_all
    moreover have "0 \<le> raw mod 65536" "raw mod 65536 \<le> 65535"
      by simp_all
    ultimately show ?thesis
      by (simp add: encode_int32_def raw_def Let_def)
  qed
  have m1: "renderTagValue_int32 0 (Some [65535, 65535]) = RNumber (- 1)"
    using decode_words [of "[]" 65535 65535 "[]"] by (simp add: js_or_def js_shl_def)
  have z: "renderTagValue_int32 0 (Some [0, 0]) = RNumber 0"
    using decode_words [of "[]" 0 0 "[]"] by (simp add: js_or_def js_shl_def)
  have len: "length (encode_int32 v) = 2"
    by (simp add: encode_int32_def Let_def)
  show ?thesis
    using rt words len m1 z by blast
qed

theorem int32_roundtrip_witness:
  "encode_int32 (- 2147483648) = [0, 32768] \<and>
   renderTagValue_int32 0 (Some [0, 32768]) = RNumber (- 2147483648) \<and>
   encode_int32 (- 2) = [65534, 65535] \<and>
   renderTagValue_int32 1 (Some [7, 65534, 65535, 9]) = RNumber (- 2)"
proof -
  have a: "encode_int32 (- 2147483648) = [0, 32768]"
    by (simp add: encode_int32_def)
  have b: "encode_int32 (- 2) = [65534, 65535]"
    by (simp add: encode_int32_def)
  show ?thesis
    using int32_roundtrip [of "- 2147483648" "[]" "[]"] int32_roundtrip [of "- 2" "[7]" "[9]"]
    by (simp add: a b)
qed

end
